theory Spec2Isabelle
  imports Main "HOL-Library.AList" "HOL-Library.Code_Target_Numeral"
begin

section \<open>Values, errors and objects of the orchestrator\<close>

text \<open>
  The workflow engine is the class \<open>OrchestratorClient\<close> (second half of
  \<open>src/core/minimal-orchestrator.js\<close>, lines 861 to 1328). It is dynamically typed; the
  values that flow through it (caller params, step inputs, agent results, mapped results)
  are JavaScript values. Numbers are restricted to the integers, which is all the engine
  and its stock workflow use in step data; a number stands for the double of that value,
  which is exact, and printed in decimal, for every integer of magnitude up to \<open>2^53\<close>.
\<close>

datatype jsval =
    Undefined
  | Null
  | Bool bool
  | Num int
  | Str string
  | Arr "jsval list"
  | Obj "(string \<times> jsval) list"

text \<open>
  An object is the list of its own enumerable properties in insertion order; an assignment
  \<open>o[k] = v\<close> replaces the value of an existing key in place and appends a new key
  (\<open>AList.update\<close>). The objects of step data are plain: their prototype is
  \<open>Object.prototype\<close>. Where the engine reads or assigns a property whose name a caller or
  a workflow chooses, what the prototype holds under that name is modelled too
  (\<open>assignProperty\<close> and \<open>getProperty\<close> below). The order in which an object enumerates
  integer-like keys is outside the model.
\<close>

type_synonym object = "(string \<times> jsval) list"

text \<open>
  A thrown value is an \<open>Error\<close> object (of any error class, \<open>TypeError\<close> included) with
  its message text, or any other value: \<open>throw null\<close>, a thrown string, a plain object.
\<close>

datatype exn = Error string | Thrown jsval

text \<open>The message text of an \<open>Error\<close> object.\<close>

fun message :: "exn \<Rightarrow> string" where
  "message (Error m) = m"

text \<open>A property name as an error message of the runtime quotes it.\<close>

definition quoted :: "string \<Rightarrow> string" where
  "quoted s = [CHR 0x27] @ s @ [CHR 0x27]"

text \<open>
  The property read \<open>error.message\<close> on a caught value: the message of an \<open>Error\<close>
  object; a \<open>TypeError\<close> on \<open>null\<close> and on \<open>undefined\<close>; the own property \<open>message\<close> of a
  plain object; and \<open>undefined\<close> where the value has no such property.
\<close>

fun error_message :: "exn \<Rightarrow> exn + jsval" where
  "error_message (Error m) = Inr (Str m)"
| "error_message (Thrown Undefined) =
     Inl (Error (''Cannot read properties of undefined (reading '' @ quoted ''message'' @ '')''))"
| "error_message (Thrown Null) =
     Inl (Error (''Cannot read properties of null (reading '' @ quoted ''message'' @ '')''))"
| "error_message (Thrown (Obj ps)) =
     Inr (case map_of ps ''message'' of Some v \<Rightarrow> v | None \<Rightarrow> Undefined)"
| "error_message (Thrown v) = Inr Undefined"

text \<open>JavaScript truthiness, as used by \<open>!step.condition(stepResults)\<close>.\<close>

fun truthy :: "jsval \<Rightarrow> bool" where
  "truthy Undefined = False"
| "truthy Null = False"
| "truthy (Bool b) = b"
| "truthy (Num n) = (n \<noteq> 0)"
| "truthy (Str s) = (s \<noteq> [])"
| "truthy (Arr xs) = True"
| "truthy (Obj ps) = True"

text \<open>Decimal rendering of an array index, for the keys an array or a string spreads to.\<close>

definition digit :: "nat \<Rightarrow> char" where
  "digit d = char_of (48 + d)"

function show_nat :: "nat \<Rightarrow> string" where
  "show_nat n = (if n < 10 then [digit n] else show_nat (n div 10) @ [digit (n mod 10)])"
  by pat_completeness auto
termination
  by (relation "measure (\<lambda>n. n)") auto

declare show_nat.simps [simp del]

definition show_int :: "int \<Rightarrow> string" where
  "show_int n = (if n < 0 then ''-'' @ show_nat (nat (- n)) else show_nat (nat n))"

text \<open>
  The conversion to a string that a template literal \<open>`${v}`\<close> makes. An array joins the
  strings of its elements with commas, \<open>null\<close> and \<open>undefined\<close> elements giving the empty
  string; a plain object gives \<open>[object Object]\<close>, unless it has an own property
  \<open>toString\<close>: no value of the model is callable, so the conversion then throws a
  \<open>TypeError\<close>. The first element that throws ends the conversion of an array.
\<close>

fun joined :: "(exn + string) list \<Rightarrow> exn + string" where
  "joined [] = Inr []"
| "joined [x] = x"
| "joined (x # y # ys) =
     (case x of
        Inl e \<Rightarrow> Inl e
      | Inr s \<Rightarrow> (case joined (y # ys) of Inl e \<Rightarrow> Inl e | Inr t \<Rightarrow> Inr (s @ '','' @ t)))"

fun to_string :: "jsval \<Rightarrow> exn + string" where
  "to_string Undefined = Inr ''undefined''"
| "to_string Null = Inr ''null''"
| "to_string (Bool b) = Inr (if b then ''true'' else ''false'')"
| "to_string (Num n) = Inr (show_int n)"
| "to_string (Str s) = Inr s"
| "to_string (Arr xs) =
     joined (map (\<lambda>x. case x of Undefined \<Rightarrow> Inr [] | Null \<Rightarrow> Inr [] | _ \<Rightarrow> to_string x) xs)"
| "to_string (Obj ps) =
     (if ''toString'' \<in> fst ` set ps then Inl (Error ''Cannot convert object to primitive value'')
      else Inr ''[object Object]'')"

text \<open>
  The own enumerable properties an object spread \<open>{ ...v }\<close> copies: those of an object,
  the indexed elements of an array, the indexed characters of a string, and nothing for
  \<open>null\<close>, \<open>undefined\<close>, booleans and numbers.
\<close>

fun ownEntries :: "jsval \<Rightarrow> object" where
  "ownEntries (Obj ps) = ps"
| "ownEntries (Arr xs) = zip (map show_nat [0..<length xs]) xs"
| "ownEntries (Str s) = zip (map show_nat [0..<length s]) (map (\<lambda>c. Str [c]) s)"
| "ownEntries v = []"

text \<open>\<open>{ ...a, ...v }\<close> for an object \<open>a\<close>: later keys overwrite earlier ones.\<close>

definition spread :: "object \<Rightarrow> jsval \<Rightarrow> object" where
  "spread a v = fold (\<lambda>(k, x). AList.update k x) (ownEntries v) a"

text \<open>
  The object \<open>stepResults\<close> of a run (line 1050) is given to the functions of the step
  definitions, and the engine assigns to it under the names of the steps (line 1079). It
  is modelled with its prototype: \<open>Object.prototype\<close> when it is created as \<open>{}\<close>, and
  \<open>null\<close> or an object or array value once an assignment has set it.
\<close>

datatype prototype = ObjectPrototype | NoPrototype | Prototype jsval

record results_object =
  own :: object
  proto :: prototype

definition emptyObject :: results_object where
  "emptyObject = \<lparr>own = [], proto = ObjectPrototype\<rparr>"

text \<open>
  The assignment \<open>obj[k] = v\<close>. Under every key but \<open>__proto__\<close> it replaces or adds an
  own property, what the prototypes hold under other keys being writable data properties.
  The key \<open>__proto__\<close> is an accessor property of \<open>Object.prototype\<close>: unless the object has
  an own property of that name, or its prototype is \<open>null\<close> or has one, the assignment
  calls the setter, which makes an object or array value, or \<open>null\<close>, the prototype of the
  object and ignores any other value; it adds no own property.
\<close>

definition setter_reached :: "results_object \<Rightarrow> bool" where
  "setter_reached obj \<longleftrightarrow>
     ''__proto__'' \<notin> fst ` set (own obj) \<and>
     (case proto obj of
        ObjectPrototype \<Rightarrow> True
      | NoPrototype \<Rightarrow> False
      | Prototype p \<Rightarrow> ''__proto__'' \<notin> fst ` set (ownEntries p))"

definition assignProperty :: "string \<Rightarrow> jsval \<Rightarrow> results_object \<Rightarrow> results_object" where
  "assignProperty k v obj =
     (if k = ''__proto__'' \<and> setter_reached obj
      then (case v of
              Obj ps \<Rightarrow> obj\<lparr>proto := Prototype v\<rparr>
            | Arr xs \<Rightarrow> obj\<lparr>proto := Prototype v\<rparr>
            | Null \<Rightarrow> obj\<lparr>proto := NoPrototype\<rparr>
            | _ \<Rightarrow> obj)
      else obj\<lparr>own := AList.update k v (own obj)\<rparr>)"

section \<open>Tasks, step records and step definitions\<close>

text \<open>
  The status strings the orchestrator writes: a task is \<open>PENDING\<close>, \<open>RUNNING\<close>,
  \<open>COMPLETED\<close>, \<open>FAILED\<close> or \<open>CANCELLED\<close>; a step record is \<open>PENDING\<close>, \<open>RUNNING\<close>,
  \<open>COMPLETED\<close>, \<open>FAILED\<close> or \<open>SKIPPED\<close>. Both are the same JavaScript strings.
\<close>

datatype status = PENDING | RUNNING | COMPLETED | FAILED | CANCELLED | SKIPPED

fun status_text :: "status \<Rightarrow> string" where
  "status_text PENDING = ''PENDING''"
| "status_text RUNNING = ''RUNNING''"
| "status_text COMPLETED = ''COMPLETED''"
| "status_text FAILED = ''FAILED''"
| "status_text CANCELLED = ''CANCELLED''"
| "status_text SKIPPED = ''SKIPPED''"

text \<open>
  The per-step record created by \<open>startWorkflow\<close> (lines 1009 to 1013):
  \<open>{ name, status: 'PENDING', result: null }\<close>; the property \<open>error\<close> is absent
  (\<open>None\<close>) until a failure assigns it.
\<close>

record taskStep =
  step_name :: string
  step_status :: status
  step_result :: jsval
  step_error :: "jsval option"

text \<open>The task object of lines 1004 to 1016, with the fields later code adds.\<close>

record task =
  task_id :: string
  task_type :: string
  task_status :: status
  task_params :: jsval
  task_steps :: "taskStep list"
  task_results :: object
  task_started_at :: string
  task_completed_at :: "string option"
  task_error :: "jsval option"

text \<open>What reading an optional property gives: \<open>undefined\<close> while it is absent.\<close>

definition field_value :: "jsval option \<Rightarrow> jsval" where
  "field_value f = (case f of None \<Rightarrow> Undefined | Some v \<Rightarrow> v)"

text \<open>
  A step definition of \<open>this.workflows[...].steps\<close> (lines 888 to 981). \<open>inputs\<close> is a
  function of the params and the accumulated step results, or a plain value
  (\<open>typeof step.inputs === 'function'\<close>); \<open>outputMapping\<close> and \<open>condition\<close> are optional. A
  call of any of the three may throw, which is the \<open>Inl\<close> result.
\<close>

datatype inputs_spec =
    InputsFn "jsval \<Rightarrow> results_object \<Rightarrow> exn + jsval"
  | InputsVal jsval

record stepDef =
  name :: string
  agent :: string
  action :: string
  inputs :: inputs_spec
  outputMapping :: "(jsval \<Rightarrow> exn + jsval) option"
  condition :: "(results_object \<Rightarrow> exn + jsval) option"

text \<open>\<open>workflow.steps\<close>: the only field of a workflow definition.\<close>

type_synonym workflow = "stepDef list"

text \<open>The agent invoker \<open>this.executeStep(agentName, action, inputs)\<close>.\<close>

type_synonym invoker = "string \<Rightarrow> string \<Rightarrow> jsval \<Rightarrow> exn + jsval"

text \<open>
  The registry: \<open>this.tasks\<close>, a \<open>Map\<close> from task id to task object in insertion order,
  together with the content of the ledger file \<open>tasks.json\<close> in durable storage (\<open>None\<close>
  while the file does not exist). The file holds the array of tasks last written to it.
\<close>

record 't registry =
  tasks :: "(string \<times> 't) list"
  tasks_json :: "'t list option"

section \<open>Task registry operations\<close>

text \<open>\<open>cancelTask\<close> (lines 1310 to 1325); \<open>now\<close> is \<open>new Date().toISOString()\<close>.\<close>

definition cancelTask ::
  "string \<Rightarrow> string \<Rightarrow> task registry \<Rightarrow> (exn + bool) \<times> task registry" where
  "cancelTask now taskId reg =
     (case map_of (tasks reg) taskId of
        None \<Rightarrow> (Inl (Error (''Task '' @ taskId @ '' not found'')), reg)
      | Some t \<Rightarrow>
          if task_status t \<noteq> RUNNING \<and> task_status t \<noteq> PENDING
          then (Inl (Error (''Task '' @ taskId @ '' cannot be cancelled (status: ''
                  @ status_text (task_status t) @ '')'')), reg)
          else (Inr True,
                reg\<lparr>tasks := AList.update taskId
                        (t\<lparr>task_status := CANCELLED, task_completed_at := Some now\<rparr>)
                        (tasks reg)\<rparr>))"

text \<open>
  \<open>getStatusMessage\<close> (lines 1240 to 1263). \<open>task.error || 'Task failed'\<close> is the error
  itself when that is truthy; the \<open>default\<close> branch takes any other status string.
\<close>

definition getStatusMessage :: "task \<Rightarrow> jsval" where
  "getStatusMessage t =
     (case task_status t of
        PENDING \<Rightarrow> Str ''Task is queued and waiting to start''
      | RUNNING \<Rightarrow>
          (case find (\<lambda>s. step_status s = RUNNING) (task_steps t) of
             Some currentStep \<Rightarrow> Str (''Executing step: '' @ step_name currentStep)
           | None \<Rightarrow> Str ''Task is running'')
      | COMPLETED \<Rightarrow> Str ''Task completed successfully''
      | FAILED \<Rightarrow>
          (if truthy (field_value (task_error t)) then field_value (task_error t)
           else Str ''Task failed'')
      | CANCELLED \<Rightarrow> Str ''Task was cancelled''
      | SKIPPED \<Rightarrow> Str ''Unknown status'')"

subsection \<open>Progress: double-precision arithmetic\<close>

text \<open>
  \<open>Math.floor((completedSteps / totalSteps) * 100)\<close> (line 1222) is computed on IEEE 754
  doubles: the quotient is rounded to 53 significant bits, the product with 100 is
  rounded again, and the floor is taken of that. Both counts are array lengths, below
  \<open>2^32\<close>, so they are doubles exactly and no overflow or underflow occurs.

  \<open>round53 n d\<close> is the double nearest to the positive rational \<open>n / d\<close> (ties to even),
  as a pair \<open>(m, k)\<close> standing for \<open>m / 2^k\<close>, for \<open>n / d < 2^52\<close>: \<open>k = scale53 n d\<close> is
  the least number of doublings that brings the quotient to 53 bits.
\<close>

function scale53 :: "nat \<Rightarrow> nat \<Rightarrow> nat" where
  "scale53 n d = (if n = 0 \<or> 2 ^ 52 * d \<le> n then 0 else 1 + scale53 (2 * n) d)"
  by pat_completeness auto
termination
  by (relation "measure (\<lambda>(n, d). 2 ^ 52 * d - n)") auto

declare scale53.simps [simp del]

definition round53 :: "nat \<Rightarrow> nat \<Rightarrow> nat \<times> nat" where
  "round53 n d =
     (let k = scale53 n d;
          q = (n * 2 ^ k) div d;
          r = (n * 2 ^ k) mod d
      in (if d < 2 * r \<or> (2 * r = d \<and> odd q) then q + 1 else q, k))"

text \<open>A JavaScript number that is an integer, or \<open>NaN\<close> (\<open>0 / 0\<close>, and its floor).\<close>

datatype jsnumber = NaN | Integer int

definition progress :: "nat \<Rightarrow> nat \<Rightarrow> jsnumber" where
  "progress completedSteps totalSteps =
     (if totalSteps = 0 then NaN
      else let (m, k) = round53 completedSteps totalSteps;
               (m', k') = round53 (m * 100) (2 ^ k)
           in Integer (int (m' div 2 ^ k')))"

text \<open>The object \<open>getTaskStatus\<close> returns (lines 1224 to 1232).\<close>

record taskStatus =
  ts_id :: string
  ts_status :: status
  ts_progress :: jsnumber
  ts_error :: jsval
  ts_started_at :: string
  ts_completed_at :: "string option"
  ts_message :: jsval

text \<open>
  \<open>getTaskStatus\<close> (lines 1210 to 1233). The registry is passed through, as it is for
  every method of the client, so that what a query leaves of the state can be stated.
\<close>

definition getTaskStatus ::
  "string \<Rightarrow> task registry \<Rightarrow> (exn + taskStatus) \<times> task registry" where
  "getTaskStatus taskId reg =
     (case map_of (tasks reg) taskId of
        None \<Rightarrow> (Inl (Error (''Task '' @ taskId @ '' not found'')), reg)
      | Some t \<Rightarrow>
          let totalSteps = length (task_steps t);
              completedSteps = length (filter
                (\<lambda>s. step_status s = COMPLETED \<or> step_status s = SKIPPED) (task_steps t))
          in (Inr \<lparr>ts_id = task_id t, ts_status = task_status t,
                   ts_progress = progress completedSteps totalSteps,
                   ts_error = field_value (task_error t), ts_started_at = task_started_at t,
                   ts_completed_at = task_completed_at t,
                   ts_message = getStatusMessage t\<rparr>, reg))"

text \<open>
  \<open>getTaskArtifacts\<close> (lines 1270 to 1288). \<open>stringify\<close> is the built-in
  \<open>JSON.stringify(task.results, null, 2)\<close>.
\<close>

definition getTaskArtifacts ::
  "(object \<Rightarrow> string) \<Rightarrow> string \<Rightarrow> task registry \<Rightarrow> (exn + jsval) \<times> task registry" where
  "getTaskArtifacts stringify taskId reg =
     (case map_of (tasks reg) taskId of
        None \<Rightarrow> (Inl (Error (''Task '' @ taskId @ '' not found'')), reg)
      | Some t \<Rightarrow>
          if task_status t \<noteq> COMPLETED
          then (Inl (Error (''Task '' @ taskId @ '' is not completed (status: ''
                  @ status_text (task_status t) @ '')'')), reg)
          else (Inr (Obj
                 [(''results.json'', Str (stringify (task_results t))),
                  (''example.js'',
                     Str (''console.log('' @ [CHR 0x22] @ ''Hello from the generated code!''
                          @ [CHR 0x22] @ '');'')),
                  (''README.md'',
                     Str (''# Generated Module'' @ [CHR 0x0A, CHR 0x0A]
                          @ ''This module was generated by Happiness Agent.''))]), reg))"

text \<open>\<open>listTasks\<close> (lines 1294 to 1303): the active tasks, in insertion order.\<close>

definition listTasks ::
  "task registry \<Rightarrow> (string \<times> string \<times> status \<times> string) list \<times> task registry" where
  "listTasks reg =
     (map (\<lambda>t. (task_id t, task_type t, task_status t, task_started_at t))
        (filter (\<lambda>t. task_status t = PENDING \<or> task_status t = RUNNING)
           (map snd (tasks reg))), reg)"

text \<open>
  \<open>saveTasksToDisk\<close> (lines 60 to 75), a method of the separate class
  \<open>MinimalOrchestratorClient\<close>: it overwrites \<open>tasks.json\<close> with the whole array of the
  map's values. A failing write is caught and logged (\<open>writable = False\<close>), and leaves the
  file as it was.
\<close>

definition saveTasksToDisk :: "bool \<Rightarrow> 't registry \<Rightarrow> 't registry" where
  "saveTasksToDisk writable reg =
     (if writable then reg\<lparr>tasks_json := Some (map snd (tasks reg))\<rparr> else reg)"

section \<open>The workflow engine\<close>

text \<open>
  The run of \<open>executeWorkflow\<close> holds a reference to the task object and the local
  \<open>stepResults\<close>. Two observation logs are kept beside them: \<open>history\<close> lists the task
  object after every assignment the run makes to it or to one of its step records (so that
  what holds at all times of a run can be stated), and \<open>invocations\<close> lists the calls of
  the agent invoker with the loop index they were made at.
\<close>

record run =
  the_task :: task
  stepResults :: results_object
  history :: "task list"
  invocations :: "(nat \<times> string \<times> string \<times> jsval) list"

datatype flow = Continue | Return | Throw exn

definition assign :: "(task \<Rightarrow> task) \<Rightarrow> run \<Rightarrow> run" where
  "assign f r = r\<lparr>the_task := f (the_task r), history := history r @ [f (the_task r)]\<rparr>"

text \<open>An assignment to a field of \<open>taskStep = task.steps[i]\<close>.\<close>

definition taskStep_update :: "nat \<Rightarrow> (taskStep \<Rightarrow> taskStep) \<Rightarrow> task \<Rightarrow> task" where
  "taskStep_update i f t = t\<lparr>task_steps := (task_steps t)[i := f (task_steps t ! i)]\<rparr>"

text \<open>\<open>step.condition && !step.condition(stepResults)\<close> (line 1057).\<close>

definition shouldSkip :: "stepDef \<Rightarrow> results_object \<Rightarrow> exn + bool" where
  "shouldSkip step prevResults =
     (case condition step of
        None \<Rightarrow> Inr False
      | Some c \<Rightarrow> (case c prevResults of Inl e \<Rightarrow> Inl e | Inr v \<Rightarrow> Inr (\<not> truthy v)))"

text \<open>Lines 1068 to 1070.\<close>

definition prepareInputs :: "stepDef \<Rightarrow> jsval \<Rightarrow> results_object \<Rightarrow> exn + jsval" where
  "prepareInputs step params prevResults =
     (case inputs step of InputsFn f \<Rightarrow> f params prevResults | InputsVal v \<Rightarrow> Inr v)"

text \<open>Line 1076.\<close>

definition mapResult :: "stepDef \<Rightarrow> jsval \<Rightarrow> exn + jsval" where
  "mapResult step result =
     (case outputMapping step of Some f \<Rightarrow> f result | None \<Rightarrow> Inr result)"

text \<open>Lines 1079 to 1085: the step succeeded.\<close>

definition stepCompleted :: "stepDef \<Rightarrow> nat \<Rightarrow> jsval \<Rightarrow> run \<Rightarrow> run" where
  "stepCompleted step i mappedResult r =
     assign (\<lambda>t. t\<lparr>task_results := spread (task_results t) mappedResult\<rparr>)
       (assign (taskStep_update i (\<lambda>s. s\<lparr>step_status := COMPLETED\<rparr>))
         (assign (taskStep_update i (\<lambda>s. s\<lparr>step_result := mappedResult\<rparr>))
           (r\<lparr>stepResults := assignProperty (name step) mappedResult (stepResults r)\<rparr>)))"

text \<open>
  Lines 1087 to 1096: the \<open>catch\<close> block of the step. It reads \<open>error.message\<close> after it
  has marked the step record, and converts the message to a string after it has marked the
  task: an exception of either leaves the block, and with it \<open>executeWorkflow\<close>.
\<close>

definition stepFailed :: "stepDef \<Rightarrow> nat \<Rightarrow> exn \<Rightarrow> run \<Rightarrow> flow \<times> run" where
  "stepFailed step i e r =
     (let r1 = assign (taskStep_update i (\<lambda>s. s\<lparr>step_status := FAILED\<rparr>)) r in
      case error_message e of
        Inl e' \<Rightarrow> (Throw e', r1)
      | Inr m \<Rightarrow>
          let r2 = assign (\<lambda>t. t\<lparr>task_status := FAILED\<rparr>)
                     (assign (taskStep_update i (\<lambda>s. s\<lparr>step_error := Some m\<rparr>)) r1) in
          (case to_string m of
             Inl e' \<Rightarrow> (Throw e', r2)
           | Inr text \<Rightarrow>
               (Return,
                assign (\<lambda>t. t\<lparr>task_error :=
                               Some (Str (''Failed to execute step '' @ name step @ '': '' @ text))\<rparr>)
                  r2)))"

text \<open>
  The \<open>TypeError\<close> of an assignment to \<open>taskStep.status\<close> when \<open>task.steps[i]\<close> is
  \<open>undefined\<close> (the task has fewer step records than the workflow has steps).
\<close>

definition TypeError_taskStep :: exn where
  "TypeError_taskStep =
     Error (''Cannot set properties of undefined (setting '' @ quoted ''status'' @ '')'')"

text \<open>
  One iteration of the \<open>for\<close> loop (lines 1053 to 1097). The condition is evaluated, and
  the step record marked, outside the \<open>try\<close> block: what they throw leaves
  \<open>executeWorkflow\<close>. Every failure inside the block is caught by the \<open>catch\<close> block,
  which ends the run with \<open>return\<close> unless it throws itself.
\<close>

definition loop_body :: "invoker \<Rightarrow> jsval \<Rightarrow> stepDef \<Rightarrow> nat \<Rightarrow> run \<Rightarrow> flow \<times> run" where
  "loop_body executeStep params step i r =
     (case shouldSkip step (stepResults r) of
        Inl e \<Rightarrow> (Throw e, r)
      | Inr skip \<Rightarrow>
          if length (task_steps (the_task r)) \<le> i then (Throw TypeError_taskStep, r)
          else if skip
          then (Continue, assign (taskStep_update i (\<lambda>s. s\<lparr>step_status := SKIPPED\<rparr>)) r)
          else
            let r1 = assign (taskStep_update i (\<lambda>s. s\<lparr>step_status := RUNNING\<rparr>)) r in
            (case prepareInputs step params (stepResults r1) of
               Inl e \<Rightarrow> stepFailed step i e r1
             | Inr inp \<Rightarrow>
                 let r2 = r1\<lparr>invocations :=
                              invocations r1 @ [(i, agent step, action step, inp)]\<rparr> in
                 (case executeStep (agent step) (action step) inp of
                    Inl e \<Rightarrow> stepFailed step i e r2
                  | Inr result \<Rightarrow>
                      (case mapResult step result of
                         Inl e \<Rightarrow> stepFailed step i e r2
                       | Inr mappedResult \<Rightarrow>
                           (Continue, stepCompleted step i mappedResult r2)))))"

text \<open>
  The loop from index \<open>i\<close> on; the list is \<open>workflow.steps\<close> from \<open>i\<close> on. \<open>Continue\<close>
  out of the loop means that it ran to its end.
\<close>

fun loop :: "invoker \<Rightarrow> jsval \<Rightarrow> stepDef list \<Rightarrow> nat \<Rightarrow> run \<Rightarrow> flow \<times> run" where
  "loop executeStep params [] i r = (Continue, r)"
| "loop executeStep params (step # rest) i r =
     (case loop_body executeStep params step i r of
        (Continue, r') \<Rightarrow> loop executeStep params rest (Suc i) r'
      | (Return, r') \<Rightarrow> (Return, r')
      | (Throw e, r') \<Rightarrow> (Throw e, r'))"

text \<open>
  Lines 1045 to 1050, for the task object \<open>t\<close> found in the registry: the task is marked
  \<open>RUNNING\<close> and \<open>stepResults\<close> starts empty.
\<close>

definition startRun :: "task \<Rightarrow> run" where
  "startRun t =
     assign (\<lambda>t. t\<lparr>task_status := RUNNING\<rparr>)
       \<lparr>the_task = t, stepResults = emptyObject, history = [t], invocations = []\<rparr>"

text \<open>
  \<open>executeWorkflow\<close> from line 1045 on: how the body ends (\<open>Continue\<close>: it ran to its last
  line; \<open>Return\<close>: the early return of the \<open>catch\<close> block; \<open>Throw\<close>: an exception leaves it) and
  the run. \<open>now\<close> is the time at line 1102.
\<close>

definition executeWorkflow_run ::
  "invoker \<Rightarrow> string \<Rightarrow> workflow \<Rightarrow> jsval \<Rightarrow> task \<Rightarrow> flow \<times> run" where
  "executeWorkflow_run executeStep now workflow params t =
     (case loop executeStep params workflow 0 (startRun t) of
        (Continue, r) \<Rightarrow>
          (Continue, assign (\<lambda>t. t\<lparr>task_completed_at := Some now\<rparr>)
                       (assign (\<lambda>t. t\<lparr>task_status := COMPLETED\<rparr>) r))
      | (Return, r) \<Rightarrow> (Return, r)
      | (Throw e, r) \<Rightarrow> (Throw e, r))"

text \<open>
  \<open>executeWorkflow\<close> (lines 1039 to 1104) on the registry: the exception it throws, if
  any, and the registry it leaves. The task object is shared by reference between the map
  and the run, so each assignment of the run is an assignment to the object in the map,
  and \<open>this.tasks.set(taskId, task)\<close> puts back the object that is already there. The run
  is taken to its end: other callers of the client run only while the run waits for the
  agent invoker, and the only method that then writes this task is \<open>cancelTask\<close>, whose
  writes (\<open>status\<close>, \<open>completed_at\<close>) the run never reads.
\<close>

definition executeWorkflow ::
  "invoker \<Rightarrow> string \<Rightarrow> string \<Rightarrow> workflow \<Rightarrow> jsval \<Rightarrow> task registry
     \<Rightarrow> exn option \<times> task registry" where
  "executeWorkflow executeStep now taskId workflow params reg =
     (case map_of (tasks reg) taskId of
        None \<Rightarrow> (Some (Error (''Task '' @ taskId @ '' not found'')), reg)
      | Some t \<Rightarrow>
          let (fl, r) = executeWorkflow_run executeStep now workflow params t
          in (case fl of Throw e \<Rightarrow> Some e | _ \<Rightarrow> None,
              reg\<lparr>tasks := AList.update taskId (the_task r) (tasks reg)\<rparr>))"

text \<open>The task object \<open>startWorkflow\<close> creates (lines 1004 to 1016).\<close>

definition newTask :: "string \<Rightarrow> string \<Rightarrow> jsval \<Rightarrow> workflow \<Rightarrow> string \<Rightarrow> task" where
  "newTask taskId workflowName params workflow now =
     \<lparr>task_id = taskId, task_type = workflowName, task_status = PENDING,
      task_params = params,
      task_steps = map (\<lambda>step. \<lparr>step_name = name step, step_status = PENDING,
                                 step_result = Null, step_error = None\<rparr>) workflow,
      task_results = [], task_started_at = now, task_completed_at = None,
      task_error = None\<rparr>"

text \<open>
  \<open>this.workflows\<close> is a plain object, and \<open>this.workflows[workflowName]\<close> an ordinary
  property read: it finds the own property of that name, and otherwise what the name is
  bound to on \<open>Object.prototype\<close>, which is a function for eleven names and the prototype
  object itself for \<open>__proto__\<close>.
\<close>

definition objectPrototype :: "string list" where
  "objectPrototype =
     [''constructor'', ''__defineGetter__'', ''__defineSetter__'', ''hasOwnProperty'',
      ''__lookupGetter__'', ''__lookupSetter__'', ''isPrototypeOf'', ''propertyIsEnumerable'',
      ''toString'', ''valueOf'', ''__proto__'', ''toLocaleString'']"

datatype 'a property = Own 'a | Inherited | Absent

definition getProperty :: "(string \<times> 'a) list \<Rightarrow> string \<Rightarrow> 'a property" where
  "getProperty obj k =
     (case map_of obj k of
        Some v \<Rightarrow> Own v
      | None \<Rightarrow> if k \<in> set objectPrototype then Inherited else Absent)"

text \<open>
  Lines 996 to 1016 of \<open>startWorkflow\<close>: the check of the workflow name and the creation
  of the task. \<open>workflows\<close> is \<open>this.workflows\<close>, every own property of which is a workflow
  definition; \<open>taskId\<close> is the identifier \<open>uuidv4()\<close> returns and \<open>now\<close> the time at line
  1015. An absent name is refused at line 997. An inherited name passes the check of line
  996, being truthy; it has no \<open>steps\<close>, so that \<open>workflow.steps.map\<close> at line 1009 throws a
  \<open>TypeError\<close> before \<open>this.tasks.set\<close> is called.
\<close>

definition createTask ::
  "(string \<times> workflow) list \<Rightarrow> string \<Rightarrow> string \<Rightarrow> string \<Rightarrow> jsval \<Rightarrow> task registry
     \<Rightarrow> (exn + workflow) \<times> task registry" where
  "createTask workflows taskId now workflowName params reg =
     (case getProperty workflows workflowName of
        Absent \<Rightarrow>
          (Inl (Error (''Workflow '' @ [CHR 0x22] @ workflowName @ [CHR 0x22] @ '' not found'')),
           reg)
      | Inherited \<Rightarrow>
          (Inl (Error (''Cannot read properties of undefined (reading '' @ quoted ''map'' @ '')'')),
           reg)
      | Own workflow \<Rightarrow>
          (Inr workflow,
           reg\<lparr>tasks := AList.update taskId
                   (newTask taskId workflowName params workflow now) (tasks reg)\<rparr>))"

text \<open>
  The handler of \<open>.catch\<close> (lines 1019 to 1028). It marks the task \<open>FAILED\<close> (line 1024)
  before it reads \<open>error.message\<close> (line 1025); when that read throws, the task keeps the
  mark, and the exception is the rejection of the promise \<open>.catch\<close> returns, which nothing
  handles. \<open>markRejected\<close> is what the two lines make of the task object, \<open>onRejected\<close> the
  handler on the registry.
\<close>

definition markRejected :: "exn \<Rightarrow> task \<Rightarrow> exn option \<times> task" where
  "markRejected e t =
     (case error_message e of
        Inl e' \<Rightarrow> (Some e', t\<lparr>task_status := FAILED\<rparr>)
      | Inr m \<Rightarrow> (None, t\<lparr>task_status := FAILED, task_error := Some m\<rparr>))"

definition onRejected :: "string \<Rightarrow> exn \<Rightarrow> task registry \<Rightarrow> exn option \<times> task registry" where
  "onRejected taskId e reg =
     (case map_of (tasks reg) taskId of
        None \<Rightarrow> (None, reg)
      | Some t \<Rightarrow>
          let (unhandled, t') = markRejected e t
          in (unhandled, reg\<lparr>tasks := AList.update taskId t' (tasks reg)\<rparr>))"

text \<open>
  \<open>startWorkflow\<close> (lines 995 to 1031): \<open>started\<close> is the time at line 1015 and \<open>finished\<close>
  the time the run reads when it completes. The result is the value the returned promise
  settles to (the task id, or the exception thrown before the run was launched), beside it
  the unhandled rejection, if the handler of \<open>.catch\<close> threw one, and the registry once the
  launched run has settled too.
\<close>

definition startWorkflow ::
  "invoker \<Rightarrow> (string \<times> workflow) list \<Rightarrow> string \<Rightarrow> string \<Rightarrow> string \<Rightarrow> string \<Rightarrow> jsval
     \<Rightarrow> task registry \<Rightarrow> ((exn + string) \<times> exn option) \<times> task registry" where
  "startWorkflow executeStep workflows taskId started finished workflowName params reg =
     (case createTask workflows taskId started workflowName params reg of
        (Inl e, reg1) \<Rightarrow> ((Inl e, None), reg1)
      | (Inr workflow, reg1) \<Rightarrow>
          let (thrown, reg2) = executeWorkflow executeStep finished taskId workflow params reg1
          in (case thrown of
                None \<Rightarrow> ((Inr taskId, None), reg2)
              | Some e \<Rightarrow>
                  let (unhandled, reg3) = onRejected taskId e reg2
                  in ((Inr taskId, unhandled), reg3)))"

subsection \<open>The stock agent invoker\<close>

text \<open>
  \<open>executeStep\<close> (lines 1113 to 1203): after a delay it answers the seven known
  \<open>agent:action\<close> pairs with fixed objects and throws for every other pair.
\<close>

definition executeStep :: invoker where
  "executeStep agentName actionName inp =
     (let key = agentName @ '':'' @ actionName in
      if key = ''consultant:analyze_prompt'' then
        Inr (Obj [(''scope_definition'', Obj
          [(''name'', Str ''Sample Module''),
           (''features'', Arr [Str ''Feature 1'', Str ''Feature 2'']),
           (''requirements'', Arr [Str ''Req 1'', Str ''Req 2''])])])
      else if key = ''pm:create_task_plan'' then
        Inr (Obj [(''task_plan'', Obj
          [(''tasks'', Arr
             [Obj [(''id'', Num 1), (''name'', Str ''Task 1''),
                   (''description'', Str ''Implement feature 1'')],
              Obj [(''id'', Num 2), (''name'', Str ''Task 2''),
                   (''description'', Str ''Implement feature 2'')]]),
           (''dependencies'', Arr [Arr [Num 1, Num 2]])])])
      else if key = ''code_generator:generate_module'' then
        Inr (Obj [(''generated_code'', Str ''generated/sample_module'')])
      else if key = ''test_runner:test_module'' then
        Inr (Obj [(''test_results'', Obj
          [(''total'', Num 5), (''passed'', Num 4), (''failures'', Num 1),
           (''tests'', Arr
             [Obj [(''name'', Str ''Test 1''), (''status'', Str ''PASSED'')],
              Obj [(''name'', Str ''Test 2''), (''status'', Str ''PASSED'')],
              Obj [(''name'', Str ''Test 3''), (''status'', Str ''FAILED''),
                   (''error'', Str ''Expected 3, got 4'')],
              Obj [(''name'', Str ''Test 4''), (''status'', Str ''PASSED'')],
              Obj [(''name'', Str ''Test 5''), (''status'', Str ''PASSED'')]])])])
      else if key = ''linter:lint_code'' then
        Inr (Obj [(''lint_results'', Obj
          [(''issues'', Arr
             [Obj [(''type'', Str ''warning''), (''location'', Str ''file.js:10''),
                   (''message'', Str ''Unused variable'')],
              Obj [(''type'', Str ''error''), (''location'', Str ''file.js:15''),
                   (''message'', Str ''Missing semicolon'')]])])])
      else if key = ''error_analyzer:analyze_issues'' then
        Inr (Obj [(''error_analysis'', Obj
          [(''issues'', Arr
             [Obj [(''type'', Str ''test_failure''), (''location'', Str ''module.js:25''),
                   (''description'', Str ''Incorrect calculation''),
                   (''suggested_fix'', Str ''Change + to *'')],
              Obj [(''type'', Str ''lint_error''), (''location'', Str ''module.js:15''),
                   (''description'', Str ''Missing semicolon''),
                   (''suggested_fix'', Str ''Add semicolon'')]]),
           (''summary'', Str ''Minor issues found'')])])
      else if key = ''code_generator:refine_code'' then
        Inr (Obj [(''refined_code'', Str ''refined/sample_module'')])
      else Inl (Error (''Unknown agent action: '' @ agentName @ '':'' @ actionName)))"

section \<open>Notions used to state the properties\<close>

text \<open>
  What the \<open>try\<close> block of a step (lines 1066 to 1086) comes to: the exception it throws
  (from the \<open>inputs\<close> function, the agent invoker or the output mapping), or
  \<open>mappedResult\<close>.
\<close>

definition tryBlock ::
  "invoker \<Rightarrow> jsval \<Rightarrow> stepDef \<Rightarrow> results_object \<Rightarrow> exn + jsval" where
  "tryBlock invoke params step prevResults =
     (case prepareInputs step params prevResults of
        Inl e \<Rightarrow> Inl e
      | Inr inp \<Rightarrow>
          (case invoke (agent step) (action step) inp of
             Inl e \<Rightarrow> Inl e
           | Inr result \<Rightarrow> mapResult step result))"

text \<open>Lines 1063 and 1064.\<close>

definition markRunning :: "nat \<Rightarrow> run \<Rightarrow> run" where
  "markRunning i r = assign (taskStep_update i (\<lambda>s. s\<lparr>step_status := RUNNING\<rparr>)) r"

text \<open>
  The moves of the status of a step record: from \<open>PENDING\<close> to \<open>RUNNING\<close> or directly to
  \<open>SKIPPED\<close>, and from \<open>RUNNING\<close> to \<open>COMPLETED\<close> or to \<open>FAILED\<close>. \<open>forward a b\<close>: a record
  in status \<open>a\<close> may later be found in status \<open>b\<close>, after none, one or two moves.
\<close>

fun moves :: "status \<Rightarrow> status \<Rightarrow> bool" where
  "moves PENDING RUNNING = True"
| "moves PENDING SKIPPED = True"
| "moves RUNNING COMPLETED = True"
| "moves RUNNING FAILED = True"
| "moves a b = False"

definition forward :: "status \<Rightarrow> status \<Rightarrow> bool" where
  "forward a b = (a = b \<or> moves a b \<or> (a = PENDING \<and> moves RUNNING b))"

text \<open>
  From the task \<open>t\<close> to the task \<open>t'\<close>, every step record has kept its status or made one
  move (\<open>steps_move\<close>), or is found in a status it may later be in (\<open>steps_forward\<close>).
\<close>

definition steps_move :: "task \<Rightarrow> task \<Rightarrow> bool" where
  "steps_move t t' =
     list_all2 (\<lambda>s s'. step_status s = step_status s' \<or> moves (step_status s) (step_status s'))
       (task_steps t) (task_steps t')"

definition steps_forward :: "task \<Rightarrow> task \<Rightarrow> bool" where
  "steps_forward t t' =
     list_all2 (\<lambda>s s'. forward (step_status s) (step_status s')) (task_steps t) (task_steps t')"

text \<open>The step record as \<open>startWorkflow\<close> creates it.\<close>

definition pendingStep :: "stepDef \<Rightarrow> taskStep" where
  "pendingStep step =
     \<lparr>step_name = name step, step_status = PENDING, step_result = Null, step_error = None\<rparr>"

text \<open>
  \<open>ran_to t0 i t\<close>: the task \<open>t\<close> is what a run that started on \<open>t0\<close> has made of it when
  its loop has passed the steps below \<open>i\<close> without a failure: each of them is \<open>COMPLETED\<close>
  or the record of \<open>t0\<close> marked \<open>SKIPPED\<close>, the records from \<open>i\<close> on are those of \<open>t0\<close>, and
  the task is \<open>RUNNING\<close>. \<open>failed_at t0 i t\<close>: the run returned at step \<open>i\<close>, which is
  \<open>FAILED\<close>, as the task is. \<open>broke_at t0 i t\<close>: the \<open>catch\<close> block of step \<open>i\<close> threw, after
  it had marked the step record, or the step record and the task.
\<close>

definition ran_to :: "task \<Rightarrow> nat \<Rightarrow> task \<Rightarrow> bool" where
  "ran_to t0 i t \<longleftrightarrow>
     length (task_steps t) = length (task_steps t0) \<and>
     (\<forall>j. i \<le> j \<and> j < length (task_steps t0) \<longrightarrow> task_steps t ! j = task_steps t0 ! j) \<and>
     (\<forall>j. j < i \<and> j < length (task_steps t0) \<longrightarrow>
          step_name (task_steps t ! j) = step_name (task_steps t0 ! j) \<and>
          (step_status (task_steps t ! j) = COMPLETED \<or>
           task_steps t ! j = (task_steps t0 ! j)\<lparr>step_status := SKIPPED\<rparr>)) \<and>
     task_status t = RUNNING \<and> task_error t = task_error t0 \<and>
     task_completed_at t = task_completed_at t0"

definition failed_at :: "task \<Rightarrow> nat \<Rightarrow> task \<Rightarrow> bool" where
  "failed_at t0 i t \<longleftrightarrow>
     length (task_steps t) = length (task_steps t0) \<and>
     (\<forall>j. i < j \<and> j < length (task_steps t0) \<longrightarrow> task_steps t ! j = task_steps t0 ! j) \<and>
     (\<forall>j. j < i \<and> j < length (task_steps t0) \<longrightarrow>
          step_name (task_steps t ! j) = step_name (task_steps t0 ! j) \<and>
          (step_status (task_steps t ! j) = COMPLETED \<or>
           task_steps t ! j = (task_steps t0 ! j)\<lparr>step_status := SKIPPED\<rparr>)) \<and>
     i < length (task_steps t0) \<and>
     (\<exists>m nm text. task_steps t ! i =
               (task_steps t0 ! i)\<lparr>step_status := FAILED, step_error := Some m\<rparr> \<and>
             task_error t = Some (Str (''Failed to execute step '' @ nm @ '': '' @ text))) \<and>
     task_status t = FAILED \<and>
     task_completed_at t = task_completed_at t0"

definition broke_at :: "task \<Rightarrow> nat \<Rightarrow> task \<Rightarrow> bool" where
  "broke_at t0 i t \<longleftrightarrow>
     length (task_steps t) = length (task_steps t0) \<and>
     (\<forall>j. i < j \<and> j < length (task_steps t0) \<longrightarrow> task_steps t ! j = task_steps t0 ! j) \<and>
     (\<forall>j. j < i \<and> j < length (task_steps t0) \<longrightarrow>
          step_name (task_steps t ! j) = step_name (task_steps t0 ! j) \<and>
          (step_status (task_steps t ! j) = COMPLETED \<or>
           task_steps t ! j = (task_steps t0 ! j)\<lparr>step_status := SKIPPED\<rparr>)) \<and>
     i < length (task_steps t0) \<and>
     (task_steps t ! i = (task_steps t0 ! i)\<lparr>step_status := FAILED\<rparr> \<and> task_status t = RUNNING \<or>
      (\<exists>m. task_steps t ! i =
             (task_steps t0 ! i)\<lparr>step_status := FAILED, step_error := Some m\<rparr>) \<and>
      task_status t = FAILED) \<and>
     task_error t = task_error t0 \<and>
     task_completed_at t = task_completed_at t0"

text \<open>
  \<open>monotone_history r\<close>: from each recorded state of the task to the next, every step
  record has kept its status or made one move; from each recorded state to every later
  one, every step record is found in a status it may later be in; and the last recorded
  state is the current one.
\<close>

definition monotone_history :: "run \<Rightarrow> bool" where
  "monotone_history r \<longleftrightarrow>
     successively steps_move (history r) \<and> sorted_wrt steps_forward (history r) \<and>
     history r \<noteq> [] \<and> last (history r) = the_task r"

text \<open>The \<open>COMPLETED\<close> ones among the first \<open>k\<close> step records of a task, in order.\<close>

definition completedSteps :: "nat \<Rightarrow> task \<Rightarrow> taskStep list" where
  "completedSteps k t = filter (\<lambda>s. step_status s = COMPLETED) (take k (task_steps t))"

section \<open>Example inputs\<close>

text \<open>A registry with a running, a completed and a failed task, none of them with steps.\<close>

definition sampleTask :: "string \<Rightarrow> status \<Rightarrow> task" where
  "sampleTask taskId st =
     \<lparr>task_id = taskId, task_type = ''full_cycle'', task_status = st,
      task_params = Obj [(''user_prompt'', Str ''hi'')], task_steps = [],
      task_results = [], task_started_at = ''2025-01-01T00:00:00.000Z'',
      task_completed_at = None, task_error = None\<rparr>"

definition sampleRegistry :: "task registry" where
  "sampleRegistry =
     \<lparr>tasks = [(''a'', sampleTask ''a'' RUNNING), (''b'', sampleTask ''b'' COMPLETED),
               (''c'', sampleTask ''c'' FAILED)],
      tasks_json = None\<rparr>"

text \<open>
  Workflows for the examples. A plain step passes the caller's params to its agent
  (\<open>inputs: params => params\<close>) and has neither an output mapping nor a condition.
  \<open>fourSteps\<close> is the scenario of an unknown agent action at the second of four steps.
  \<open>conditional\<close> ends with a step whose condition reads the list \<open>lint_issues\<close> in the
  result of the step \<open>lint\<close>, an own property of the results, and holds when the list is
  not empty; it is false after a lint step without issues. \<open>fixOnly\<close> is that last step alone, whose condition then finds
  no result of a step \<open>lint\<close> and throws a \<open>TypeError\<close>. In \<open>conditionThrows v\<close> the
  condition of the only step throws the value \<open>v\<close>, and in \<open>inputsThrow v\<close> the \<open>inputs\<close>
  function of the second of three steps does. The three steps of \<open>sameName\<close> have one
  name; the condition of the third is false. The only step of \<open>protoName\<close> has the name
  \<open>__proto__\<close>.
\<close>

definition plainStep :: "string \<Rightarrow> string \<Rightarrow> string \<Rightarrow> stepDef" where
  "plainStep nm ag ac =
     \<lparr>name = nm, agent = ag, action = ac,
      inputs = InputsFn (\<lambda>params prevResults. Inr params),
      outputMapping = None, condition = None\<rparr>"

definition lintIssues :: "results_object \<Rightarrow> exn + jsval" where
  "lintIssues prevResults =
     (case map_of (own prevResults) ''lint'' of
        Some (Obj ps) \<Rightarrow>
          (case map_of ps ''lint_issues'' of
             Some (Arr xs) \<Rightarrow> Inr (Bool (0 < length xs))
           | _ \<Rightarrow> Inl (Error (''Cannot read properties of undefined (reading ''
                        @ quoted ''length'' @ '')'')))
      | _ \<Rightarrow> Inl (Error (''Cannot read properties of undefined (reading ''
                   @ quoted ''lint_issues'' @ '')'')))"

definition fourSteps :: workflow where
  "fourSteps =
     [plainStep ''analyze'' ''consultant'' ''analyze_prompt'',
      plainStep ''plan'' ''pm'' ''no_such_action'',
      plainStep ''generate'' ''code_generator'' ''generate_module'',
      plainStep ''lint'' ''linter'' ''lint_code'']"

definition conditional :: workflow where
  "conditional =
     [plainStep ''generate'' ''code_generator'' ''generate_module'',
      (plainStep ''lint'' ''linter'' ''lint_code'')
        \<lparr>outputMapping := Some (\<lambda>result. Inr (Obj [(''lint_issues'', Arr [])]))\<rparr>,
      (plainStep ''fix'' ''code_generator'' ''refine_code'')
        \<lparr>condition := Some lintIssues\<rparr>]"

definition fixOnly :: workflow where
  "fixOnly = [(plainStep ''fix'' ''code_generator'' ''refine_code'')\<lparr>condition := Some lintIssues\<rparr>]"

definition conditionThrows :: "jsval \<Rightarrow> workflow" where
  "conditionThrows v =
     [(plainStep ''fix'' ''code_generator'' ''refine_code'')
        \<lparr>condition := Some (\<lambda>prevResults. Inl (Thrown v))\<rparr>]"

definition inputsThrow :: "jsval \<Rightarrow> workflow" where
  "inputsThrow v =
     [plainStep ''analyze'' ''consultant'' ''analyze_prompt'',
      (plainStep ''plan'' ''pm'' ''create_task_plan'')
        \<lparr>inputs := InputsFn (\<lambda>params prevResults. Inl (Thrown v))\<rparr>,
      plainStep ''generate'' ''code_generator'' ''generate_module'']"

definition sameName :: workflow where
  "sameName =
     [plainStep ''build'' ''code_generator'' ''generate_module'',
      plainStep ''build'' ''code_generator'' ''refine_code'',
      (plainStep ''build'' ''linter'' ''lint_code'')
        \<lparr>condition := Some (\<lambda>prevResults. Inr (Bool False))\<rparr>]"

definition protoName :: workflow where
  "protoName = [plainStep ''__proto__'' ''code_generator'' ''generate_module'']"

definition sampleWorkflows :: "(string \<times> workflow) list" where
  "sampleWorkflows =
     [(''four'', fourSteps), (''conditional'', conditional), (''fix_only'', fixOnly),
      (''empty'', []), (''throws_null'', conditionThrows Null),
      (''throws_text'', conditionThrows (Str ''boom'')),
      (''inputs_throw_null'', inputsThrow Null), (''same_name'', sameName),
      (''proto_name'', protoName)]"

definition emptyRegistry :: "task registry" where
  "emptyRegistry = \<lparr>tasks = [], tasks_json = None\<rparr>"

text \<open>
  A running task of fifty steps, the first twenty-nine of them completed, as the run of a
  fifty-step workflow leaves it while its thirtieth step waits for the agent.
\<close>

definition fiftySteps :: task where
  "fiftySteps =
     (sampleTask ''p'' RUNNING)
       \<lparr>task_steps :=
          replicate 29 \<lparr>step_name = ''s'', step_status = COMPLETED, step_result = Obj [],
                        step_error = None\<rparr> @
          [\<lparr>step_name = ''s'', step_status = RUNNING, step_result = Null, step_error = None\<rparr>] @
          replicate 20 \<lparr>step_name = ''s'', step_status = PENDING, step_result = Null,
                        step_error = None\<rparr>\<rparr>"

section \<open>Properties\<close>

subsection \<open>Basic facts about the run\<close>

lemma the_task_assign [simp]: "the_task (assign f r) = f (the_task r)"
  and stepResults_assign [simp]: "stepResults (assign f r) = stepResults r"
  and invocations_assign [simp]: "invocations (assign f r) = invocations r"
  and history_assign [simp]: "history (assign f r) = history r @ [f (the_task r)]"
  by (simp_all add: assign_def)

lemma task_steps_taskStep_update [simp]:
  "task_steps (taskStep_update i f t) = (task_steps t)[i := f (task_steps t ! i)]"
  and task_status_taskStep_update [simp]: "task_status (taskStep_update i f t) = task_status t"
  and task_error_taskStep_update [simp]: "task_error (taskStep_update i f t) = task_error t"
  and task_results_taskStep_update [simp]: "task_results (taskStep_update i f t) = task_results t"
  and task_completed_at_taskStep_update [simp]:
    "task_completed_at (taskStep_update i f t) = task_completed_at t"
  by (simp_all add: taskStep_update_def)

lemma loop_rule:
  assumes init: "P i r"
    and body: "\<And>j r fl r'. \<lbrakk>j < length ws; P j r;
                 loop_body ex params (ws ! j) j r = (fl, r')\<rbrakk>
               \<Longrightarrow> (case fl of Continue \<Rightarrow> P (Suc j) r' | _ \<Rightarrow> Q fl r')"
    and le: "i \<le> length ws"
  shows "case loop ex params (drop i ws) i r of
           (Continue, r') \<Rightarrow> P (length ws) r'
         | (fl, r') \<Rightarrow> Q fl r'"
  using init le
proof (induction "length ws - i" arbitrary: i r)
  case 0
  then show ?case by simp
next
  case (Suc n)
  then have lt: "i < length ws" by simp
  then have d: "drop i ws = ws ! i # drop (Suc i) ws"
    by (simp add: Cons_nth_drop_Suc)
  obtain fl r' where b: "loop_body ex params (ws ! i) i r = (fl, r')"
    by (cases "loop_body ex params (ws ! i) i r")
  from body [OF lt Suc.prems(1) b]
  have c: "case fl of Continue \<Rightarrow> P (Suc i) r' | _ \<Rightarrow> Q fl r'" by simp
  show ?case
  proof (cases fl)
    case Continue
    with c have "P (Suc i) r'" by simp
    moreover have "n = length ws - Suc i" using Suc.hyps(2) by simp
    ultimately have "case loop ex params (drop (Suc i) ws) (Suc i) r' of
           (Continue, r') \<Rightarrow> P (length ws) r'
         | (fl, r') \<Rightarrow> Q fl r'"
      using Suc.hyps(1) [of "Suc i" r'] lt body by simp
    then show ?thesis using d b Continue by simp
  next
    case Return
    then show ?thesis using c d b by simp
  next
    case (Throw e)
    then show ?thesis using c d b by simp
  qed
qed

lemma list_update_nth_same: "xs[i := g (xs[i := a] ! i)] = xs[i := g a]"
  by (cases "i < length xs") (simp_all add: not_less list_update_beyond)

text \<open>
  The \<open>catch\<close> block of a step leaves the results, the calls made and every other step
  record as they are. It returns when the message of the caught value can be read and
  converted to a string; otherwise it throws, having marked the step record, or the step
  record and the task.
\<close>

lemma stepFailed_frame:
  assumes "stepFailed step i e r = (fl, r')"
  shows "stepResults r' = stepResults r" and "invocations r' = invocations r"
    and "task_results (the_task r') = task_results (the_task r)"
    and "task_completed_at (the_task r') = task_completed_at (the_task r)"
    and "length (task_steps (the_task r')) = length (task_steps (the_task r))"
    and "j \<noteq> i \<Longrightarrow> task_steps (the_task r') ! j = task_steps (the_task r) ! j"
    and "fl \<noteq> Continue"
    and "\<exists>ys. history r' = history r @ ys"
  using assms
  by (auto simp: stepFailed_def Let_def split: sum.splits)

lemma stepFailed_cases [consumes 1, case_names recorded no_message no_text]:
  assumes "stepFailed step i e r = (fl, r')"
  obtains
    (recorded) m msg where "error_message e = Inr m" and "to_string m = Inr msg"
      and "fl = Return"
      and "task_steps (the_task r') =
             (task_steps (the_task r))
               [i := (task_steps (the_task r) ! i)\<lparr>step_status := FAILED, step_error := Some m\<rparr>]"
      and "task_status (the_task r') = FAILED"
      and "task_error (the_task r') =
             Some (Str (''Failed to execute step '' @ name step @ '': '' @ msg))"
  | (no_message) e' where "error_message e = Inl e'" and "fl = Throw e'"
      and "task_steps (the_task r') =
             (task_steps (the_task r))
               [i := (task_steps (the_task r) ! i)\<lparr>step_status := FAILED\<rparr>]"
      and "task_status (the_task r') = task_status (the_task r)"
      and "task_error (the_task r') = task_error (the_task r)"
  | (no_text) m e' where "error_message e = Inr m" and "to_string m = Inl e'"
      and "fl = Throw e'"
      and "task_steps (the_task r') =
             (task_steps (the_task r))
               [i := (task_steps (the_task r) ! i)\<lparr>step_status := FAILED, step_error := Some m\<rparr>]"
      and "task_status (the_task r') = FAILED"
      and "task_error (the_task r') = task_error (the_task r)"
  using assms
  by (auto simp: stepFailed_def Let_def list_update_nth_same split: sum.splits)

lemma loop_body_cases [consumes 1, case_names cond_throws no_record skipped inputs_failed invoke_failed completed]:
  assumes "loop_body ex params step i r = (fl, r')"
  obtains
    (cond_throws) e where "shouldSkip step (stepResults r) = Inl e"
      and "fl = Throw e" and "r' = r"
  | (no_record) b where "shouldSkip step (stepResults r) = Inr b"
      and "length (task_steps (the_task r)) \<le> i"
      and "fl = Throw TypeError_taskStep" and "r' = r"
  | (skipped) "shouldSkip step (stepResults r) = Inr True"
      and "i < length (task_steps (the_task r))" and "fl = Continue"
      and "r' = assign (taskStep_update i (\<lambda>s. s\<lparr>step_status := SKIPPED\<rparr>)) r"
  | (inputs_failed) e where "shouldSkip step (stepResults r) = Inr False"
      and "i < length (task_steps (the_task r))"
      and "prepareInputs step params (stepResults r) = Inl e"
      and "tryBlock ex params step (stepResults r) = Inl e"
      and "stepFailed step i e (markRunning i r) = (fl, r')"
  | (invoke_failed) e inp where "shouldSkip step (stepResults r) = Inr False"
      and "i < length (task_steps (the_task r))"
      and "prepareInputs step params (stepResults r) = Inr inp"
      and "tryBlock ex params step (stepResults r) = Inl e"
      and "stepFailed step i e
             ((markRunning i r)\<lparr>invocations := invocations r @ [(i, agent step, action step, inp)]\<rparr>)
           = (fl, r')"
  | (completed) inp mapped where "shouldSkip step (stepResults r) = Inr False"
      and "i < length (task_steps (the_task r))"
      and "prepareInputs step params (stepResults r) = Inr inp"
      and "tryBlock ex params step (stepResults r) = Inr mapped"
      and "fl = Continue"
      and "r' = stepCompleted step i mapped
             ((markRunning i r)\<lparr>invocations := invocations r @ [(i, agent step, action step, inp)]\<rparr>)"
  using assms
  unfolding loop_body_def tryBlock_def markRunning_def Let_def
  by (auto split: sum.splits if_splits)

lemma loop_append:
  "loop ex params (xs @ ys) i r =
     (case loop ex params xs i r of
        (Continue, r') \<Rightarrow> loop ex params ys (i + length xs) r'
      | (Return, r') \<Rightarrow> (Return, r')
      | (Throw e, r') \<Rightarrow> (Throw e, r'))"
proof (induction xs arbitrary: i r)
  case Nil
  then show ?case by simp
next
  case (Cons x xs)
  obtain fl r' where b: "loop_body ex params x i r = (fl, r')"
    by (cases "loop_body ex params x i r")
  show ?case
    by (cases fl) (simp_all add: b Cons.IH split: prod.splits flow.splits)
qed

lemma the_task_markRunning [simp]:
  "the_task (markRunning i r) = taskStep_update i (\<lambda>s. s\<lparr>step_status := RUNNING\<rparr>) (the_task r)"
  and stepResults_markRunning [simp]: "stepResults (markRunning i r) = stepResults r"
  and invocations_markRunning [simp]: "invocations (markRunning i r) = invocations r"
  by (simp_all add: markRunning_def)

lemma stepCompleted_fields [simp]:
  "task_steps (the_task (stepCompleted step i m r)) =
     (task_steps (the_task r))
       [i := (task_steps (the_task r) ! i)\<lparr>step_result := m, step_status := COMPLETED\<rparr>]"
  "task_status (the_task (stepCompleted step i m r)) = task_status (the_task r)"
  "task_error (the_task (stepCompleted step i m r)) = task_error (the_task r)"
  "task_results (the_task (stepCompleted step i m r)) = spread (task_results (the_task r)) m"
  "task_completed_at (the_task (stepCompleted step i m r)) = task_completed_at (the_task r)"
  "stepResults (stepCompleted step i m r) = assignProperty (name step) m (stepResults r)"
  "invocations (stepCompleted step i m r) = invocations r"
  by (simp_all add: stepCompleted_def list_update_nth_same)

lemma ran_to_start: "ran_to t 0 (the_task (startRun t))"
  by (simp add: ran_to_def startRun_def)

lemma body_ran_to:
  assumes inv: "ran_to t0 j (the_task r)"
    and b: "loop_body ex params step j r = (fl, r')"
  shows "case fl of Continue \<Rightarrow> ran_to t0 (Suc j) (the_task r')
         | Return \<Rightarrow> failed_at t0 j (the_task r')
         | Throw e \<Rightarrow> r' = r \<or> broke_at t0 j (the_task r')"
proof -
  have failed: "case fl of Continue \<Rightarrow> False
         | Return \<Rightarrow> failed_at t0 j (the_task r')
         | Throw e \<Rightarrow> broke_at t0 j (the_task r')"
    if f: "stepFailed step j e r0 = (fl, r')"
      and r0: "the_task r0 = the_task (markRunning j r)"
      and j: "j < length (task_steps (the_task r))" for e r0
  proof -
    note fr = stepFailed_frame [OF f]
    from f show ?thesis
    proof (cases rule: stepFailed_cases)
      case (recorded m msg)
      with inv j r0 fr(4) show ?thesis
        by (auto simp: ran_to_def failed_at_def nth_list_update)
    next
      case (no_message e')
      with inv j r0 fr(4) show ?thesis
        by (auto simp: ran_to_def broke_at_def nth_list_update)
    next
      case (no_text m e')
      with inv j r0 fr(4) show ?thesis
        by (auto simp: ran_to_def broke_at_def nth_list_update)
    qed
  qed
  from b show ?thesis
  proof (cases rule: loop_body_cases)
    case (skipped)
    with inv show ?thesis
      by (auto simp: ran_to_def nth_list_update less_Suc_eq)
  next
    case (inputs_failed e)
    from failed [OF inputs_failed(5) _ inputs_failed(2)] show ?thesis
      by (cases fl) simp_all
  next
    case (invoke_failed e inp)
    from failed [OF invoke_failed(5) _ invoke_failed(2)] show ?thesis
      by (cases fl) simp_all
  next
    case (completed inp mapped)
    with inv show ?thesis
      by (auto simp: ran_to_def nth_list_update less_Suc_eq)
  qed simp_all
qed

lemma loop_ran_to:
  assumes "ran_to t0 i (the_task r)" and "i \<le> length ws"
  shows "case loop ex params (drop i ws) i r of
           (Continue, r') \<Rightarrow> ran_to t0 (length ws) (the_task r')
         | (Return, r') \<Rightarrow> \<exists>k<length ws. failed_at t0 k (the_task r')
         | (Throw e, r') \<Rightarrow>
             \<exists>k<length ws. ran_to t0 k (the_task r') \<or> broke_at t0 k (the_task r')"
proof -
  let ?P = "\<lambda>j r. ran_to t0 j (the_task r)"
  let ?Q = "\<lambda>fl r. case fl of Continue \<Rightarrow> True
              | Return \<Rightarrow> \<exists>k<length ws. failed_at t0 k (the_task r)
              | Throw e \<Rightarrow> \<exists>k<length ws. ran_to t0 k (the_task r) \<or> broke_at t0 k (the_task r)"
  have "case loop ex params (drop i ws) i r of
           (Continue, r') \<Rightarrow> ?P (length ws) r'
         | (fl, r') \<Rightarrow> ?Q fl r'"
  proof (rule loop_rule [where P = ?P and Q = ?Q, OF assms(1) _ assms(2)])
    fix j r fl r'
    assume j: "j < length ws" and p: "ran_to t0 j (the_task r)"
      and b: "loop_body ex params (ws ! j) j r = (fl, r')"
    from body_ran_to [OF p b] j p
    show "case fl of Continue \<Rightarrow> ran_to t0 (Suc j) (the_task r') | _ \<Rightarrow> ?Q fl r'"
      by (cases fl) auto
  qed
  then show ?thesis
    by (auto split: prod.splits flow.splits)
qed

lemma run_outcome:
  "case executeWorkflow_run ex now ws params t0 of
     (Continue, r) \<Rightarrow>
        \<exists>t. ran_to t0 (length ws) t \<and>
            the_task r = t\<lparr>task_status := COMPLETED, task_completed_at := Some now\<rparr>
   | (Return, r) \<Rightarrow> \<exists>k<length ws. failed_at t0 k (the_task r)
   | (Throw e, r) \<Rightarrow> \<exists>k<length ws. ran_to t0 k (the_task r) \<or> broke_at t0 k (the_task r)"
  using loop_ran_to [OF ran_to_start, of ws t0 ex params]
  by (auto simp: executeWorkflow_run_def split: prod.splits flow.splits)

lemma map_of_update_same: "map_of (AList.update k v al) k = Some v"
  by (simp add: update_conv')

text \<open>
  Starting a registered workflow: the run is launched on the new task, and what it leaves
  of the task, marked by the handler of \<open>.catch\<close> when an exception left the run, is what
  the registry holds under the task id.
\<close>

lemma createTask_known:
  assumes "getProperty workflows workflowName = Own ws"
  shows "createTask workflows taskId started workflowName params reg =
     (Inr ws, reg\<lparr>tasks := AList.update taskId
                       (newTask taskId workflowName params ws started) (tasks reg)\<rparr>)"
  using assms by (simp add: createTask_def)

lemma startWorkflow_known:
  assumes "getProperty workflows workflowName = Own ws"
  shows "startWorkflow ex workflows taskId started finished workflowName params reg =
     (case executeWorkflow_run ex finished ws params
             (newTask taskId workflowName params ws started) of
        (Throw e, r) \<Rightarrow>
          ((Inr taskId, fst (markRejected e (the_task r))),
           reg\<lparr>tasks := AList.update taskId (snd (markRejected e (the_task r))) (tasks reg)\<rparr>)
      | (fl, r) \<Rightarrow>
          ((Inr taskId, None), reg\<lparr>tasks := AList.update taskId (the_task r) (tasks reg)\<rparr>))"
  by (auto simp: startWorkflow_def createTask_known [OF assms] executeWorkflow_def onRejected_def
      map_of_update_same Let_def split: prod.splits flow.splits option.splits)

subsection \<open>Cancelling a task\<close>

text \<open>
  C6. \<open>cancelTask\<close> fails with the not-found error when the id is unknown, fails with the
  cannot-be-cancelled error when the task is in any status other than \<open>PENDING\<close> and
  \<open>RUNNING\<close> (so on every \<open>COMPLETED\<close> and every \<open>FAILED\<close> task), both times leaving the
  registry as it was; otherwise it succeeds, and the task is then \<open>CANCELLED\<close> with
  \<open>completed_at\<close> set to the current time, every other task and the ledger file being
  untouched.
\<close>

theorem cancelTask_outcomes:
  "(map_of (tasks reg) taskId = None \<longrightarrow>
      cancelTask now taskId reg = (Inl (Error (''Task '' @ taskId @ '' not found'')), reg)) \<and>
   (\<forall>t. map_of (tasks reg) taskId = Some t \<and> task_status t \<noteq> PENDING \<and> task_status t \<noteq> RUNNING \<longrightarrow>
      cancelTask now taskId reg =
        (Inl (Error (''Task '' @ taskId @ '' cannot be cancelled (status: ''
               @ status_text (task_status t) @ '')'')), reg)) \<and>
   (\<forall>t. map_of (tasks reg) taskId = Some t \<and> (task_status t = PENDING \<or> task_status t = RUNNING) \<longrightarrow>
      fst (cancelTask now taskId reg) = Inr True \<and>
      map_of (tasks (snd (cancelTask now taskId reg))) taskId =
        Some (t\<lparr>task_status := CANCELLED, task_completed_at := Some now\<rparr>) \<and>
      (\<forall>other. other \<noteq> taskId \<longrightarrow>
         map_of (tasks (snd (cancelTask now taskId reg))) other = map_of (tasks reg) other) \<and>
      tasks_json (snd (cancelTask now taskId reg)) = tasks_json reg)"
  by (auto simp: cancelTask_def update_conv')

theorem cancelTask_outcomes_witness:
  "cancelTask ''2025-01-02T00:00:00.000Z'' ''zz'' sampleRegistry =
     (Inl (Error ''Task zz not found''), sampleRegistry) \<and>
   cancelTask ''2025-01-02T00:00:00.000Z'' ''b'' sampleRegistry =
     (Inl (Error ''Task b cannot be cancelled (status: COMPLETED)''), sampleRegistry) \<and>
   cancelTask ''2025-01-02T00:00:00.000Z'' ''c'' sampleRegistry =
     (Inl (Error ''Task c cannot be cancelled (status: FAILED)''), sampleRegistry) \<and>
   fst (cancelTask ''2025-01-02T00:00:00.000Z'' ''a'' sampleRegistry) = Inr True \<and>
   map_of (tasks (snd (cancelTask ''2025-01-02T00:00:00.000Z'' ''a'' sampleRegistry))) ''a'' =
     Some ((sampleTask ''a'' RUNNING)
            \<lparr>task_status := CANCELLED, task_completed_at := Some ''2025-01-02T00:00:00.000Z''\<rparr>)"
  using cancelTask_outcomes [of sampleRegistry "''zz''" "''2025-01-02T00:00:00.000Z''"]
    cancelTask_outcomes [of sampleRegistry "''b''" "''2025-01-02T00:00:00.000Z''"]
    cancelTask_outcomes [of sampleRegistry "''c''" "''2025-01-02T00:00:00.000Z''"]
    cancelTask_outcomes [of sampleRegistry "''a''" "''2025-01-02T00:00:00.000Z''"]
  by (simp add: sampleRegistry_def sampleTask_def)

subsection \<open>Reading a task\<close>

lemma getTaskStatus_readonly: "snd (getTaskStatus taskId reg) = reg"
  by (simp add: getTaskStatus_def Let_def split: option.splits)

lemma getTaskArtifacts_readonly: "snd (getTaskArtifacts stringify taskId reg) = reg"
  by (simp add: getTaskArtifacts_def split: option.splits)

lemma funpow_fixed: "f x = x \<Longrightarrow> (f ^^ n) x = x"
  by (induction n) simp_all

text \<open>
  C9. \<open>getTaskStatus\<close> and \<open>getTaskArtifacts\<close> leave the registry as it is, so after any
  number \<open>n\<close> of calls in a row the next call returns what the first returned, result
  and registry alike.
\<close>

theorem queries_repeatable:
  "getTaskStatus taskId (((\<lambda>g. snd (getTaskStatus taskId g)) ^^ n) reg) =
     getTaskStatus taskId reg \<and>
   snd (getTaskStatus taskId reg) = reg \<and>
   getTaskArtifacts stringify taskId (((\<lambda>g. snd (getTaskArtifacts stringify taskId g)) ^^ n) reg) =
     getTaskArtifacts stringify taskId reg \<and>
   snd (getTaskArtifacts stringify taskId reg) = reg"
  by (simp add: funpow_fixed getTaskStatus_readonly getTaskArtifacts_readonly)

text \<open>
  C7, as amended. \<open>getTaskArtifacts\<close> fails with the not-found error when the id is
  unknown and with the not-completed error whenever the task is in a status other than
  \<open>COMPLETED\<close>, whatever its steps are, leaving the registry as it was. On a \<open>COMPLETED\<close>
  task it returns, the registry unchanged, an object of three files: \<open>results.json\<close>, the
  serialised results map of the task, and \<open>example.js\<close> and \<open>README.md\<close>, two texts that
  are the same for every task.
\<close>

theorem getTaskArtifacts_outcomes:
  "(map_of (tasks reg) taskId = None \<longrightarrow>
      getTaskArtifacts stringify taskId reg =
        (Inl (Error (''Task '' @ taskId @ '' not found'')), reg)) \<and>
   (\<forall>t. map_of (tasks reg) taskId = Some t \<and> task_status t \<noteq> COMPLETED \<longrightarrow>
      getTaskArtifacts stringify taskId reg =
        (Inl (Error (''Task '' @ taskId @ '' is not completed (status: ''
               @ status_text (task_status t) @ '')'')), reg)) \<and>
   (\<forall>t. map_of (tasks reg) taskId = Some t \<and> task_status t = COMPLETED \<longrightarrow>
      getTaskArtifacts stringify taskId reg =
        (Inr (Obj [(''results.json'', Str (stringify (task_results t))),
                   (''example.js'',
                      Str (''console.log('' @ [CHR 0x22] @ ''Hello from the generated code!''
                           @ [CHR 0x22] @ '');'')),
                   (''README.md'',
                      Str (''# Generated Module'' @ [CHR 0x0A, CHR 0x0A]
                           @ ''This module was generated by Happiness Agent.''))]), reg))"
  by (auto simp: getTaskArtifacts_def)

theorem getTaskArtifacts_outcomes_witness:
  "getTaskArtifacts (\<lambda>results. ''{}'') ''zz'' sampleRegistry =
     (Inl (Error ''Task zz not found''), sampleRegistry) \<and>
   getTaskArtifacts (\<lambda>results. ''{}'') ''a'' sampleRegistry =
     (Inl (Error ''Task a is not completed (status: RUNNING)''), sampleRegistry) \<and>
   getTaskArtifacts (\<lambda>results. ''{}'') ''c'' sampleRegistry =
     (Inl (Error ''Task c is not completed (status: FAILED)''), sampleRegistry) \<and>
   getTaskArtifacts (\<lambda>results. ''{}'') ''b'' sampleRegistry =
     (Inr (Obj [(''results.json'', Str ''{}''),
                (''example.js'',
                   Str (''console.log('' @ [CHR 0x22] @ ''Hello from the generated code!''
                        @ [CHR 0x22] @ '');'')),
                (''README.md'',
                   Str (''# Generated Module'' @ [CHR 0x0A, CHR 0x0A]
                        @ ''This module was generated by Happiness Agent.''))]), sampleRegistry)"
  using getTaskArtifacts_outcomes [of sampleRegistry "''zz''" "\<lambda>results. ''{}''"]
    getTaskArtifacts_outcomes [of sampleRegistry "''a''" "\<lambda>results. ''{}''"]
    getTaskArtifacts_outcomes [of sampleRegistry "''c''" "\<lambda>results. ''{}''"]
    getTaskArtifacts_outcomes [of sampleRegistry "''b''" "\<lambda>results. ''{}''"]
  by (simp add: sampleRegistry_def sampleTask_def)

text \<open>
  The claim as it was stated, that the result on a \<open>COMPLETED\<close> task is the results map
  of the task, fails on the completed task of the sample registry, whose results map is
  empty (\<open>JSON.stringify({}, null, 2)\<close> is \<open>{}\<close>).
\<close>

theorem getTaskArtifacts_not_results_map:
  "map_of (tasks sampleRegistry) ''b'' = Some (sampleTask ''b'' COMPLETED) \<and>
   task_status (sampleTask ''b'' COMPLETED) = COMPLETED \<and>
   fst (getTaskArtifacts (\<lambda>results. ''{}'') ''b'' sampleRegistry) \<noteq>
     Inr (Obj (task_results (sampleTask ''b'' COMPLETED)))"
  by (simp add: sampleRegistry_def sampleTask_def getTaskArtifacts_def)

subsection \<open>Evaluating a run\<close>

text \<open>The history of a run only grows, and starts with the task the run was given.\<close>

lemma history_stepCompleted: "\<exists>ys. history (stepCompleted step i m r) = history r @ ys"
  by (simp add: stepCompleted_def)

lemma history_markRunning: "\<exists>ys. history (markRunning i r) = history r @ ys"
  by (simp add: markRunning_def)

lemma body_history:
  assumes "loop_body ex params step j r = (fl, r')"
  shows "\<exists>ys. history r' = history r @ ys"
  using assms
proof (cases rule: loop_body_cases)
  case (inputs_failed e)
  then show ?thesis
    using stepFailed_frame(8) [of step j e "markRunning j r" fl r'] history_markRunning [of j r]
    by auto
next
  case (invoke_failed e inp)
  then show ?thesis
    using stepFailed_frame(8) [of step j e
        "(markRunning j r)\<lparr>invocations := invocations r @ [(j, agent step, action step, inp)]\<rparr>"
        fl r']
      history_markRunning [of j r]
    by auto
next
  case (completed inp mapped)
  then show ?thesis
    using history_stepCompleted [of step j mapped
        "(markRunning j r)\<lparr>invocations := invocations r @ [(j, agent step, action step, inp)]\<rparr>"]
      history_markRunning [of j r]
    by auto
qed simp_all

lemma loop_history: "\<exists>ys. history (snd (loop ex params steps i r)) = history r @ ys"
proof (induction steps arbitrary: i r)
  case Nil
  then show ?case by simp
next
  case (Cons step rest)
  obtain fl r' where b: "loop_body ex params step i r = (fl, r')"
    by (cases "loop_body ex params step i r")
  from body_history [OF b] obtain ys where ys: "history r' = history r @ ys" ..
  show ?case
  proof (cases fl)
    case Continue
    from Cons.IH [of "Suc i" r'] obtain zs
      where "history (snd (loop ex params rest (Suc i) r')) = history r' @ zs" ..
    then show ?thesis using b Continue ys by simp
  qed (use b ys in simp_all)
qed

lemma run_history_hd: "hd (history (snd (executeWorkflow_run ex now ws params t))) = t"
proof -
  obtain ys where "history (snd (loop ex params ws 0 (startRun t))) = history (startRun t) @ ys"
    using loop_history by blast
  then show ?thesis
    by (auto simp: executeWorkflow_run_def startRun_def split: prod.splits flow.splits)
qed

lemmas run_defs = startWorkflow_def createTask_def getProperty_def objectPrototype_def
  executeWorkflow_def executeWorkflow_run_def startRun_def onRejected_def markRejected_def
  loop_body_def stepFailed_def stepCompleted_def assign_def taskStep_update_def shouldSkip_def
  prepareInputs_def mapResult_def executeStep_def newTask_def spread_def quoted_def
  plainStep_def lintIssues_def fourSteps_def conditional_def fixOnly_def conditionThrows_def
  inputsThrow_def sameName_def protoName_def sampleWorkflows_def emptyRegistry_def
  TypeError_taskStep_def emptyObject_def assignProperty_def setter_reached_def Let_def

subsection \<open>Starting a workflow\<close>

lemma getProperty_own: "map_of obj k = Some v \<Longrightarrow> getProperty obj k = Own v"
  by (simp add: getProperty_def)

lemma started_task_outcome:
  assumes "getProperty workflows workflowName = Own ws"
  shows "fst (fst (startWorkflow ex workflows taskId started finished workflowName params reg))
      = Inr taskId \<and>
    (\<exists>t. map_of (tasks (snd (startWorkflow ex workflows taskId started finished
                workflowName params reg))) taskId = Some t \<and>
       (case executeWorkflow_run ex finished ws params
               (newTask taskId workflowName params ws started) of
          (Throw e, r) \<Rightarrow> t = snd (markRejected e (the_task r))
        | (fl, r) \<Rightarrow> t = the_task r))"
  by (auto simp: startWorkflow_known [OF assms] map_of_update_same split: prod.splits flow.splits)

lemma started_task:
  assumes w: "getProperty workflows workflowName = Own ws"
    and run: "executeWorkflow_run ex finished ws params
                (newTask taskId workflowName params ws started) = (fl, r)"
    and fin: "map_of (tasks (snd (startWorkflow ex workflows taskId started finished
                workflowName params reg))) taskId = Some t"
  shows "t = (case fl of Throw e \<Rightarrow> snd (markRejected e (the_task r)) | _ \<Rightarrow> the_task r)"
    and "snd (fst (startWorkflow ex workflows taskId started finished workflowName params reg)) =
           (case fl of Throw e \<Rightarrow> fst (markRejected e (the_task r)) | _ \<Rightarrow> None)"
  using fin
  by (simp_all add: startWorkflow_known [OF w] run map_of_update_same split: flow.splits)

text \<open>
  For a registered workflow, \<open>startWorkflow\<close> returns the new task id, whatever happens in
  the run it launches. A run that meets no failure leaves the task \<open>COMPLETED\<close> with no
  error, and a run that ends with the \<open>return\<close> of the \<open>catch\<close> block of a step leaves it
  \<open>FAILED\<close> with the composed error text. When an exception \<open>e\<close> leaves \<open>executeWorkflow\<close>,
  the handler of \<open>startWorkflow\<close> marks the task \<open>FAILED\<close>; the error of the task is then
  the message of \<open>e\<close> when that can be read, as it can of every \<open>Error\<close> object, and is left
  unset otherwise, the exception of the read being a rejection that nothing handles.
\<close>

lemma startWorkflow_settles:
  assumes w: "getProperty workflows workflowName = Own workflow"
  shows "fst (fst (startWorkflow ex workflows taskId started finished workflowName params reg))
      = Inr taskId \<and>
    (\<exists>t. map_of (tasks (snd (startWorkflow ex workflows taskId started finished
                workflowName params reg))) taskId = Some t \<and>
       (case fst (executeWorkflow_run ex finished workflow params
                    (newTask taskId workflowName params workflow started)) of
          Continue \<Rightarrow> task_status t = COMPLETED \<and> task_error t = None \<and>
            snd (fst (startWorkflow ex workflows taskId started finished workflowName params reg))
              = None
        | Return \<Rightarrow> task_status t = FAILED \<and>
            (\<exists>nm msg. task_error t = Some (Str (''Failed to execute step '' @ nm @ '': '' @ msg))) \<and>
            snd (fst (startWorkflow ex workflows taskId started finished workflowName params reg))
              = None
        | Throw e \<Rightarrow> task_status t = FAILED \<and>
            (case error_message e of
               Inr m \<Rightarrow> task_error t = Some m \<and>
                 snd (fst (startWorkflow ex workflows taskId started finished workflowName
                             params reg)) = None
             | Inl e' \<Rightarrow> task_error t = None \<and>
                 snd (fst (startWorkflow ex workflows taskId started finished workflowName
                             params reg)) = Some e')))"
proof -
  let ?t0 = "newTask taskId workflowName params workflow started"
  let ?after = "startWorkflow ex workflows taskId started finished workflowName params reg"
  obtain fl r where run: "executeWorkflow_run ex finished workflow params ?t0 = (fl, r)"
    by (cases "executeWorkflow_run ex finished workflow params ?t0")
  from started_task_outcome [OF w, of ex taskId started finished params reg]
  obtain t where ok: "fst (fst ?after) = Inr taskId"
    and fin: "map_of (tasks (snd ?after)) taskId = Some t"
    by blast
  note shape = started_task [OF w run fin]
  have out: "case fl of
      Continue \<Rightarrow> \<exists>t'. ran_to ?t0 (length workflow) t' \<and>
            the_task r = t'\<lparr>task_status := COMPLETED, task_completed_at := Some finished\<rparr>
    | Return \<Rightarrow> \<exists>k<length workflow. failed_at ?t0 k (the_task r)
    | Throw e \<Rightarrow> \<exists>k<length workflow. ran_to ?t0 k (the_task r) \<or> broke_at ?t0 k (the_task r)"
    using run_outcome [where ex = ex and now = finished and ws = workflow and params = params
        and ?t0.0 = ?t0] run by (simp split: flow.splits)
  have t0: "task_error ?t0 = None"
    by (simp add: newTask_def)
  have "case fl of
          Continue \<Rightarrow> task_status t = COMPLETED \<and> task_error t = None \<and> snd (fst ?after) = None
        | Return \<Rightarrow> task_status t = FAILED \<and>
            (\<exists>nm msg. task_error t = Some (Str (''Failed to execute step '' @ nm @ '': '' @ msg))) \<and>
            snd (fst ?after) = None
        | Throw e \<Rightarrow> task_status t = FAILED \<and>
            (case error_message e of
               Inr m \<Rightarrow> task_error t = Some m \<and> snd (fst ?after) = None
             | Inl e' \<Rightarrow> task_error t = None \<and> snd (fst ?after) = Some e')"
  proof (cases fl)
    case Continue
    with shape out t0 show ?thesis
      by (auto simp: ran_to_def)
  next
    case Return
    with shape out show ?thesis
      by (auto simp: failed_at_def)
  next
    case (Throw e)
    with out t0 have "task_error (the_task r) = None"
      by (auto simp: ran_to_def broke_at_def)
    with shape Throw show ?thesis
      by (simp add: markRejected_def split: sum.splits)
  qed
  with ok fin run show ?thesis by auto
qed

lemma startWorkflow_settles_example:
  "fst (fst (startWorkflow executeStep sampleWorkflows ''t1'' ''T0'' ''T1'' ''four'' (Obj [])
               emptyRegistry)) = Inr ''t1'' \<and>
   fst (executeWorkflow_run executeStep ''T1'' fourSteps (Obj [])
          (newTask ''t1'' ''four'' (Obj []) fourSteps ''T0'')) = Return \<and>
   (\<exists>t. map_of (tasks (snd (startWorkflow executeStep sampleWorkflows ''t1'' ''T0'' ''T1'' ''four''
             (Obj []) emptyRegistry))) ''t1'' = Some t \<and>
        task_status t = FAILED \<and>
        (\<exists>nm msg. task_error t = Some (Str (''Failed to execute step '' @ nm @ '': '' @ msg)))) \<and>
   fst (executeWorkflow_run executeStep ''T1'' fixOnly (Obj [])
          (newTask ''t2'' ''fix_only'' (Obj []) fixOnly ''T0''))
     = Throw (Error (''Cannot read properties of undefined (reading ''
                      @ quoted ''lint_issues'' @ '')'')) \<and>
   (\<exists>t. map_of (tasks (snd (startWorkflow executeStep sampleWorkflows ''t2'' ''T0'' ''T1'' ''fix_only''
             (Obj []) emptyRegistry))) ''t2'' = Some t \<and>
        task_status t = FAILED \<and>
        task_error t = Some (Str (''Cannot read properties of undefined (reading ''
                                   @ quoted ''lint_issues'' @ '')'')))"
proof -
  have w1: "getProperty sampleWorkflows ''four'' = Own fourSteps"
    and w2: "getProperty sampleWorkflows ''fix_only'' = Own fixOnly"
    by (simp_all add: sampleWorkflows_def getProperty_def)
  have f1: "fst (executeWorkflow_run executeStep ''T1'' fourSteps (Obj [])
          (newTask ''t1'' ''four'' (Obj []) fourSteps ''T0'')) = Return"
    by (simp add: run_defs)
  have f2: "fst (executeWorkflow_run executeStep ''T1'' fixOnly (Obj [])
          (newTask ''t2'' ''fix_only'' (Obj []) fixOnly ''T0''))
     = Throw (Error (''Cannot read properties of undefined (reading ''
                      @ quoted ''lint_issues'' @ '')''))"
    by (simp add: run_defs)
  show ?thesis
    using startWorkflow_settles [OF w1, of executeStep "''t1''" "''T0''" "''T1''" "Obj []" emptyRegistry]
      startWorkflow_settles [OF w2, of executeStep "''t2''" "''T0''" "''T1''" "Obj []" emptyRegistry]
    by (auto simp: f1 f2)
qed

text \<open>
  C1. Not every failure of a run is captured into the error field of the task. When the
  condition of a step throws \<open>null\<close>, \<open>startWorkflow\<close> returns the task id and its handler
  marks the task \<open>FAILED\<close>, but the handler then throws itself, reading the message of
  \<open>null\<close>: the error field of the task is left unset, and the exception of the handler is
  a rejection that nothing handles. When the condition throws a string, the handler
  stores \<open>undefined\<close> as the error of the task.
\<close>

theorem startWorkflow_loses_failure:
  "startWorkflow executeStep sampleWorkflows ''t1'' ''T0'' ''T1'' ''throws_null'' (Obj [])
     emptyRegistry =
     ((Inr ''t1'',
       Some (Error (''Cannot read properties of null (reading '' @ quoted ''message'' @ '')''))),
      \<lparr>tasks =
         [(''t1'',
           \<lparr>task_id = ''t1'', task_type = ''throws_null'', task_status = FAILED,
            task_params = Obj [],
            task_steps = [\<lparr>step_name = ''fix'', step_status = PENDING, step_result = Null,
                           step_error = None\<rparr>],
            task_results = [], task_started_at = ''T0'', task_completed_at = None,
            task_error = None\<rparr>)],
       tasks_json = None\<rparr>) \<and>
   startWorkflow executeStep sampleWorkflows ''t2'' ''T0'' ''T1'' ''throws_text'' (Obj [])
     emptyRegistry =
     ((Inr ''t2'', None),
      \<lparr>tasks =
         [(''t2'',
           \<lparr>task_id = ''t2'', task_type = ''throws_text'', task_status = FAILED,
            task_params = Obj [],
            task_steps = [\<lparr>step_name = ''fix'', step_status = PENDING, step_result = Null,
                           step_error = None\<rparr>],
            task_results = [], task_started_at = ''T0'', task_completed_at = None,
            task_error = Some Undefined\<rparr>)],
       tasks_json = None\<rparr>)"
  by (simp add: run_defs)

text \<open>
  What \<open>startWorkflow\<close> does with a workflow name. A name that is neither an own property
  of \<open>this.workflows\<close> nor inherited is refused with the not-found error, and a name that
  is inherited from \<open>Object.prototype\<close> fails with a \<open>TypeError\<close>; both times the registry
  is left as it was. For a registered name, lines 1004 to 1016 store under the task id,
  and under no other, a task that is \<open>PENDING\<close> and has the given type and params, an
  empty results map and one step record per step of the workflow, each \<open>PENDING\<close> with
  result \<open>null\<close>; this task is the first state of the run that is then launched, and
  \<open>startWorkflow\<close> returns the task id.
\<close>

lemma startWorkflow_creates_task:
  "(getProperty workflows workflowName = Absent \<longrightarrow>
      startWorkflow ex workflows taskId started finished workflowName params reg =
        ((Inl (Error (''Workflow '' @ [CHR 0x22] @ workflowName @ [CHR 0x22] @ '' not found'')),
          None), reg)) \<and>
   (getProperty workflows workflowName = Inherited \<longrightarrow>
      startWorkflow ex workflows taskId started finished workflowName params reg =
        ((Inl (Error (''Cannot read properties of undefined (reading '' @ quoted ''map'' @ '')'')),
          None), reg)) \<and>
   (\<forall>workflow. getProperty workflows workflowName = Own workflow \<longrightarrow>
      (let created = snd (createTask workflows taskId started workflowName params reg);
           launched = executeWorkflow_run ex finished workflow params
                        (newTask taskId workflowName params workflow started);
           after = startWorkflow ex workflows taskId started finished workflowName params reg
       in fst (fst after) = Inr taskId \<and>
          tasks_json created = tasks_json reg \<and>
          (\<forall>other. other \<noteq> taskId \<longrightarrow>
               map_of (tasks created) other = map_of (tasks reg) other \<and>
               map_of (tasks (snd after)) other = map_of (tasks reg) other) \<and>
          (\<exists>t. map_of (tasks created) taskId = Some t \<and>
               hd (history (snd launched)) = t \<and>
               task_id t = taskId \<and> task_type t = workflowName \<and> task_params t = params \<and>
               task_status t = PENDING \<and> task_results t = [] \<and> task_error t = None \<and>
               task_started_at t = started \<and> task_completed_at t = None \<and>
               length (task_steps t) = length workflow \<and>
               (\<forall>i<length workflow.
                  task_steps t ! i =
                    \<lparr>step_name = name (workflow ! i), step_status = PENDING,
                     step_result = Null, step_error = None\<rparr>))))"
proof -
  have "let created = snd (createTask workflows taskId started workflowName params reg);
           launched = executeWorkflow_run ex finished workflow params
                        (newTask taskId workflowName params workflow started);
           after = startWorkflow ex workflows taskId started finished workflowName params reg
       in fst (fst after) = Inr taskId \<and>
          tasks_json created = tasks_json reg \<and>
          (\<forall>other. other \<noteq> taskId \<longrightarrow>
               map_of (tasks created) other = map_of (tasks reg) other \<and>
               map_of (tasks (snd after)) other = map_of (tasks reg) other) \<and>
          (\<exists>t. map_of (tasks created) taskId = Some t \<and>
               hd (history (snd launched)) = t \<and>
               task_id t = taskId \<and> task_type t = workflowName \<and> task_params t = params \<and>
               task_status t = PENDING \<and> task_results t = [] \<and> task_error t = None \<and>
               task_started_at t = started \<and> task_completed_at t = None \<and>
               length (task_steps t) = length workflow \<and>
               (\<forall>i<length workflow.
                  task_steps t ! i =
                    \<lparr>step_name = name (workflow ! i), step_status = PENDING,
                     step_result = Null, step_error = None\<rparr>))"
    if w: "getProperty workflows workflowName = Own workflow" for workflow
  proof -
    let ?t0 = "newTask taskId workflowName params workflow started"
    obtain fl r where run: "executeWorkflow_run ex finished workflow params ?t0 = (fl, r)"
      by (cases "executeWorkflow_run ex finished workflow params ?t0")
    have hd: "hd (history r) = ?t0"
      using run_history_hd [of ex finished workflow params ?t0] run by simp
    have fields: "task_id ?t0 = taskId \<and> task_type ?t0 = workflowName \<and> task_params ?t0 = params \<and>
               task_status ?t0 = PENDING \<and> task_results ?t0 = [] \<and> task_error ?t0 = None \<and>
               task_started_at ?t0 = started \<and> task_completed_at ?t0 = None \<and>
               length (task_steps ?t0) = length workflow \<and>
               (\<forall>i<length workflow.
                  task_steps ?t0 ! i =
                    \<lparr>step_name = name (workflow ! i), step_status = PENDING,
                     step_result = Null, step_error = None\<rparr>)"
      by (simp add: newTask_def)
    show ?thesis
      unfolding Let_def
      using hd fields
      by (cases fl)
         (simp_all add: startWorkflow_known [OF w] createTask_known [OF w] run update_conv')
  qed
  then show ?thesis
    by (auto simp: startWorkflow_def createTask_def)
qed

lemma startWorkflow_creates_task_example:
  "startWorkflow executeStep sampleWorkflows ''t1'' ''T0'' ''T1'' ''nope'' (Obj []) sampleRegistry =
     ((Inl (Error (''Workflow '' @ [CHR 0x22] @ ''nope'' @ [CHR 0x22] @ '' not found'')), None),
      sampleRegistry) \<and>
   fst (fst (startWorkflow executeStep sampleWorkflows ''t1'' ''T0'' ''T1'' ''conditional'' (Obj [])
          sampleRegistry)) = Inr ''t1'' \<and>
   (\<exists>t. map_of (tasks (snd (createTask sampleWorkflows ''t1'' ''T0'' ''conditional'' (Obj [])
                               sampleRegistry))) ''t1'' = Some t \<and>
        hd (history (snd (executeWorkflow_run executeStep ''T1'' conditional (Obj [])
          (newTask ''t1'' ''conditional'' (Obj []) conditional ''T0'')))) = t \<and>
        task_status t = PENDING \<and> task_results t = [] \<and>
        task_steps t =
          [\<lparr>step_name = ''generate'', step_status = PENDING, step_result = Null, step_error = None\<rparr>,
           \<lparr>step_name = ''lint'', step_status = PENDING, step_result = Null, step_error = None\<rparr>,
           \<lparr>step_name = ''fix'', step_status = PENDING, step_result = Null, step_error = None\<rparr>])"
proof -
  have w0: "getProperty sampleWorkflows ''nope'' = Absent"
    and w1: "getProperty sampleWorkflows ''conditional'' = Own conditional"
    by (simp_all add: sampleWorkflows_def getProperty_def objectPrototype_def)
  have l: "length conditional = 3"
    and n: "name (conditional ! 0) = ''generate''" "name (conditional ! 1) = ''lint''"
      "name (conditional ! 2) = ''fix''"
    by (simp_all add: conditional_def plainStep_def)
  from startWorkflow_creates_task [of sampleWorkflows "''conditional''" executeStep "''t1''" "''T0''"
        "''T1''" "Obj []" sampleRegistry] w1
  obtain t where ok: "fst (fst (startWorkflow executeStep sampleWorkflows ''t1'' ''T0'' ''T1''
          ''conditional'' (Obj []) sampleRegistry)) = Inr ''t1''"
    and t: "map_of (tasks (snd (createTask sampleWorkflows ''t1'' ''T0'' ''conditional'' (Obj [])
                               sampleRegistry))) ''t1'' = Some t"
    and h: "hd (history (snd (executeWorkflow_run executeStep ''T1'' conditional (Obj [])
          (newTask ''t1'' ''conditional'' (Obj []) conditional ''T0'')))) = t"
    and f: "task_status t = PENDING" "task_results t = []"
    and len: "length (task_steps t) = length conditional"
    and each: "\<And>i. i < length conditional \<Longrightarrow>
        task_steps t ! i =
          \<lparr>step_name = name (conditional ! i), step_status = PENDING,
           step_result = Null, step_error = None\<rparr>"
    unfolding Let_def by blast
  have "task_steps t =
          [\<lparr>step_name = ''generate'', step_status = PENDING, step_result = Null, step_error = None\<rparr>,
           \<lparr>step_name = ''lint'', step_status = PENDING, step_result = Null, step_error = None\<rparr>,
           \<lparr>step_name = ''fix'', step_status = PENDING, step_result = Null, step_error = None\<rparr>]"
    using len each [of 0] each [of 1] each [of 2] l n
    by (simp add: list_eq_iff_nth_eq less_Suc_eq eval_nat_numeral)
  with ok t h f show ?thesis
    using startWorkflow_creates_task [of sampleWorkflows "''nope''" executeStep "''t1''" "''T0''"
        "''T1''" "Obj []" sampleRegistry] w0
    by auto
qed

text \<open>
  C8. Not every unregistered workflow name is refused with the not-found error.
  \<open>this.workflows\<close> is a plain object, whose only own property in the client is the
  workflow \<open>full_cycle\<close>. The name \<open>toString\<close> finds in it the function that every object
  inherits from \<open>Object.prototype\<close>: the check of line 996 passes, and \<open>startWorkflow\<close>
  fails at line 1009 with a \<open>TypeError\<close>, not with the not-found error that a name such
  as \<open>nope\<close> is refused with. No task is created in either case.
\<close>

theorem startWorkflow_inherited_name:
  "startWorkflow ex [(''full_cycle'', full_cycle)] taskId started finished ''toString'' params reg =
     ((Inl (Error (''Cannot read properties of undefined (reading '' @ quoted ''map'' @ '')'')),
       None), reg) \<and>
   startWorkflow ex [(''full_cycle'', full_cycle)] taskId started finished ''toString'' params reg \<noteq>
     ((Inl (Error (''Workflow '' @ [CHR 0x22] @ ''toString'' @ [CHR 0x22] @ '' not found'')),
       None), reg) \<and>
   startWorkflow ex [(''full_cycle'', full_cycle)] taskId started finished ''nope'' params reg =
     ((Inl (Error (''Workflow '' @ [CHR 0x22] @ ''nope'' @ [CHR 0x22] @ '' not found'')),
       None), reg)"
  by (simp add: startWorkflow_def createTask_def getProperty_def objectPrototype_def quoted_def)

subsection \<open>The statuses during and after a run\<close>

lemma forward_refl [simp]: "forward a a"
  by (simp add: forward_def)

lemma forward_moves: "moves a b \<Longrightarrow> forward a b"
  by (simp add: forward_def)

lemma forward_trans: "forward a b \<Longrightarrow> forward b c \<Longrightarrow> forward a c"
  by (cases a; cases b; cases c; simp add: forward_def)

text \<open>\<open>forward\<close> is the reflexive and transitive closure of the moves.\<close>

lemma forward_closure: "forward a b \<longleftrightarrow> moves\<^sup>*\<^sup>* a b"
proof
  assume "forward a b"
  then consider "a = b" | "moves a b" | "a = PENDING" "moves RUNNING b"
    by (auto simp: forward_def)
  then show "moves\<^sup>*\<^sup>* a b"
  proof cases
    case 3
    have "moves PENDING RUNNING" by simp
    with 3 show ?thesis
      by (metis converse_rtranclp_into_rtranclp r_into_rtranclp)
  qed auto
next
  assume "moves\<^sup>*\<^sup>* a b"
  then show "forward a b"
    by (induction rule: rtranclp_induct) (auto intro: forward_trans forward_moves)
qed

lemma steps_forward_refl [simp]: "steps_forward t t"
  by (simp add: steps_forward_def list_all2_refl)

lemma steps_move_forward: "steps_move t t' \<Longrightarrow> steps_forward t t'"
  unfolding steps_move_def steps_forward_def
  by (erule list_all2_mono) (auto simp: forward_def)

lemma steps_forward_trans:
  assumes "steps_forward a b" and "steps_forward b c"
  shows "steps_forward a c"
proof -
  from assms have len: "length (task_steps a) = length (task_steps b)"
      "length (task_steps b) = length (task_steps c)"
    and ab: "\<And>i. i < length (task_steps a) \<Longrightarrow>
          forward (step_status (task_steps a ! i)) (step_status (task_steps b ! i))"
    and bc: "\<And>i. i < length (task_steps b) \<Longrightarrow>
          forward (step_status (task_steps b ! i)) (step_status (task_steps c ! i))"
    by (simp_all add: steps_forward_def list_all2_conv_all_nth)
  have "forward (step_status (task_steps a ! i)) (step_status (task_steps c ! i))"
    if "i < length (task_steps a)" for i
    using ab [OF that] bc [of i] that len forward_trans by auto
  with len show ?thesis
    by (simp add: steps_forward_def list_all2_conv_all_nth)
qed

lemma steps_move_same: "task_steps t' = task_steps t \<Longrightarrow> steps_move t t'"
  by (simp add: steps_move_def list_all2_refl)

lemma steps_move_update:
  assumes "step_status (f (task_steps t ! i)) = step_status (task_steps t ! i) \<or>
           moves (step_status (task_steps t ! i)) (step_status (f (task_steps t ! i)))"
  shows "steps_move t (taskStep_update i f t)"
proof (cases "i < length (task_steps t)")
  case True
  with assms show ?thesis
    by (auto simp: steps_move_def list_all2_conv_all_nth nth_list_update)
next
  case False
  then show ?thesis
    by (simp add: steps_move_def list_all2_refl list_update_beyond)
qed

lemma steps_forward_length: "steps_forward t t' \<Longrightarrow> length (task_steps t) = length (task_steps t')"
  by (simp add: steps_forward_def list_all2_lengthD)

lemma monotone_history_all:
  assumes "monotone_history r" and "h \<in> set (history r)"
  shows "steps_forward h (the_task r)"
proof -
  from assms(1) have s: "sorted_wrt steps_forward (history r)"
    and ne: "history r \<noteq> []" and l: "last (history r) = the_task r"
    by (simp_all add: monotone_history_def)
  from ne obtain xs where xs: "history r = xs @ [the_task r]"
    using l by (metis append_butlast_last_id)
  with s assms(2) show ?thesis
    by (auto simp: sorted_wrt_append)
qed

lemma monotone_history_assign:
  assumes m: "monotone_history r" and f: "steps_move (the_task r) (f (the_task r))"
  shows "monotone_history (assign f r)"
proof -
  have "\<forall>h\<in>set (history r). steps_forward h (f (the_task r))"
    using monotone_history_all [OF m] steps_move_forward [OF f] steps_forward_trans by blast
  with m f show ?thesis
    by (simp add: monotone_history_def sorted_wrt_append successively_append_iff)
qed

lemma monotone_history_invocations [simp]:
  "monotone_history (r\<lparr>invocations := c\<rparr>) = monotone_history r"
  and monotone_history_stepResults [simp]:
  "monotone_history (r\<lparr>stepResults := x\<rparr>) = monotone_history r"
  by (simp_all add: monotone_history_def)

lemma monotone_history_start: "monotone_history (startRun t)"
  by (simp add: monotone_history_def startRun_def assign_def steps_move_same
      steps_move_forward)

lemma monotone_history_skip:
  assumes "monotone_history r" and "step_status (task_steps (the_task r) ! i) = PENDING"
  shows "monotone_history (assign (taskStep_update i (\<lambda>s. s\<lparr>step_status := SKIPPED\<rparr>)) r)"
  using assms by (intro monotone_history_assign steps_move_update) simp_all

lemma monotone_history_markRunning:
  assumes "monotone_history r" and "step_status (task_steps (the_task r) ! i) = PENDING"
  shows "monotone_history (markRunning i r)"
  unfolding markRunning_def
  using assms by (intro monotone_history_assign steps_move_update) simp_all

lemma monotone_history_stepFailed:
  assumes "monotone_history r" and "i < length (task_steps (the_task r))"
    and "step_status (task_steps (the_task r) ! i) = RUNNING"
  shows "monotone_history (snd (stepFailed step i e r))"
proof -
  let ?r1 = "assign (taskStep_update i (\<lambda>s. s\<lparr>step_status := FAILED\<rparr>)) r"
  have 1: "monotone_history ?r1"
    using assms by (intro monotone_history_assign steps_move_update) simp_all
  have 2: "monotone_history
     (assign (\<lambda>t. t\<lparr>task_status := FAILED\<rparr>)
        (assign (taskStep_update i (\<lambda>s. s\<lparr>step_error := Some m\<rparr>)) ?r1))" for m
  proof -
    have "monotone_history (assign (taskStep_update i (\<lambda>s. s\<lparr>step_error := Some m\<rparr>)) ?r1)"
      by (rule monotone_history_assign [OF 1]) (rule steps_move_update, simp)
    then show ?thesis
      by (rule monotone_history_assign) (rule steps_move_same, simp)
  qed
  have 3: "monotone_history
     (assign (\<lambda>t. t\<lparr>task_error := x\<rparr>)
        (assign (\<lambda>t. t\<lparr>task_status := FAILED\<rparr>)
           (assign (taskStep_update i (\<lambda>s. s\<lparr>step_error := Some m\<rparr>)) ?r1)))" for m x
    by (rule monotone_history_assign [OF 2]) (rule steps_move_same, simp)
  show ?thesis
    using 1 2 3 by (simp add: stepFailed_def Let_def split: sum.splits)
qed

lemma monotone_history_stepCompleted:
  assumes "monotone_history r" and "i < length (task_steps (the_task r))"
    and "step_status (task_steps (the_task r) ! i) = RUNNING"
  shows "monotone_history (stepCompleted step i m r)"
  unfolding stepCompleted_def
  using assms
  by (intro monotone_history_assign steps_move_update steps_move_same) simp_all

lemma body_monotone:
  assumes inv: "ran_to t0 j (the_task r)" and j: "j < length (task_steps t0)"
    and pending: "step_status (task_steps t0 ! j) = PENDING"
    and m: "monotone_history r"
    and b: "loop_body ex params step j r = (fl, r')"
  shows "monotone_history r'"
proof -
  from inv j pending have p: "step_status (task_steps (the_task r) ! j) = PENDING"
    and len: "j < length (task_steps (the_task r))"
    by (simp_all add: ran_to_def)
  have run: "monotone_history (markRunning j r)"
    by (rule monotone_history_markRunning [OF m p])
  have st: "step_status (task_steps (the_task (markRunning j r)) ! j) = RUNNING"
    and len': "j < length (task_steps (the_task (markRunning j r)))"
    using len by simp_all
  from b show ?thesis
  proof (cases rule: loop_body_cases)
    case skipped
    then show ?thesis using monotone_history_skip [OF m p] by simp
  next
    case (inputs_failed e)
    then show ?thesis using monotone_history_stepFailed [OF run len' st, of step e] by simp
  next
    case (invoke_failed e inp)
    then show ?thesis
      using monotone_history_stepFailed [of
          "(markRunning j r)\<lparr>invocations := invocations r @ [(j, agent step, action step, inp)]\<rparr>"
          j step e] run len' st
      by simp
  next
    case (completed inp mapped)
    then show ?thesis
      using monotone_history_stepCompleted [of
          "(markRunning j r)\<lparr>invocations := invocations r @ [(j, agent step, action step, inp)]\<rparr>"
          j step mapped] run len' st
      by simp
  qed (use m in simp_all)
qed

lemma loop_monotone:
  assumes "ran_to t0 i (the_task r)" and "monotone_history r" and "i \<le> length ws"
    and len: "length ws \<le> length (task_steps t0)"
    and pending: "\<forall>j<length (task_steps t0). step_status (task_steps t0 ! j) = PENDING"
  shows "monotone_history (snd (loop ex params (drop i ws) i r))"
proof -
  let ?P = "\<lambda>j r. ran_to t0 j (the_task r) \<and> monotone_history r"
  let ?Q = "\<lambda>fl r. monotone_history r"
  have "case loop ex params (drop i ws) i r of
           (Continue, r') \<Rightarrow> ?P (length ws) r'
         | (fl, r') \<Rightarrow> ?Q fl r'"
  proof (rule loop_rule [where P = ?P and Q = ?Q])
    show "?P i r" using assms by simp
    show "i \<le> length ws" by fact
  next
    fix j r fl r'
    assume j: "j < length ws" and p: "ran_to t0 j (the_task r) \<and> monotone_history r"
      and b: "loop_body ex params (ws ! j) j r = (fl, r')"
    from j len have j': "j < length (task_steps t0)" by simp
    have "monotone_history r'"
      using body_monotone [OF _ j' _ _ b] p pending j' by simp
    with body_ran_to [OF _ b, of t0] p
    show "case fl of Continue \<Rightarrow> ?P (Suc j) r' | _ \<Rightarrow> ?Q fl r'"
      by (cases fl) auto
  qed
  then show ?thesis
    by (auto split: prod.splits flow.splits)
qed

lemma run_monotone:
  assumes "length ws \<le> length (task_steps t0)"
    and "\<forall>j<length (task_steps t0). step_status (task_steps t0 ! j) = PENDING"
  shows "monotone_history (snd (executeWorkflow_run ex now ws params t0))"
proof -
  have "monotone_history (snd (loop ex params (drop 0 ws) 0 (startRun t0)))"
    by (rule loop_monotone [OF ran_to_start monotone_history_start _ assms]) simp
  then show ?thesis
    by (auto simp: executeWorkflow_run_def split: prod.splits flow.splits
        intro!: monotone_history_assign steps_move_same)
qed

lemma newTask_steps:
  "task_steps (newTask taskId workflowName params ws started) = map pendingStep ws"
  by (simp add: newTask_def pendingStep_def)

lemma task_steps_markRejected [simp]: "task_steps (snd (markRejected e t)) = task_steps t"
  and task_status_markRejected [simp]: "task_status (snd (markRejected e t)) = FAILED"
  by (simp_all add: markRejected_def split: sum.splits)

lemma run_final_statuses:
  assumes run: "executeWorkflow_run ex finished ws params
                (newTask taskId workflowName params ws started) = (fl, r)"
  shows "length (task_steps (the_task r)) = length ws"
    and "fl = Continue \<Longrightarrow> task_status (the_task r) = COMPLETED \<and>
           (\<forall>s\<in>set (task_steps (the_task r)). step_status s = COMPLETED \<or> step_status s = SKIPPED)"
    and "fl = Return \<Longrightarrow> task_status (the_task r) = FAILED \<and>
           (\<exists>s\<in>set (task_steps (the_task r)). step_status s = FAILED)"
    and "fl = Throw e \<Longrightarrow>
           (\<exists>s\<in>set (task_steps (the_task r)). step_status s = PENDING \<or> step_status s = FAILED)"
proof -
  let ?t0 = "newTask taskId workflowName params ws started"
  have t0: "length (task_steps ?t0) = length ws"
    "\<And>j. j < length ws \<Longrightarrow> step_status (task_steps ?t0 ! j) = PENDING"
    by (simp_all add: newTask_steps pendingStep_def)
  have out: "case fl of
      Continue \<Rightarrow> \<exists>t'. ran_to ?t0 (length ws) t' \<and>
            the_task r = t'\<lparr>task_status := COMPLETED, task_completed_at := Some finished\<rparr>
    | Return \<Rightarrow> \<exists>k<length ws. failed_at ?t0 k (the_task r)
    | Throw e \<Rightarrow> \<exists>k<length ws. ran_to ?t0 k (the_task r) \<or> broke_at ?t0 k (the_task r)"
    using run_outcome [where ex = ex and now = finished and ws = ws and params = params
        and ?t0.0 = ?t0] run by (simp split: flow.splits)
  show "length (task_steps (the_task r)) = length ws"
    using out t0(1) by (cases fl) (auto simp: ran_to_def failed_at_def broke_at_def)
  show "task_status (the_task r) = COMPLETED \<and>
           (\<forall>s\<in>set (task_steps (the_task r)). step_status s = COMPLETED \<or> step_status s = SKIPPED)"
    if "fl = Continue"
  proof -
    from out that obtain t' where r: "ran_to ?t0 (length ws) t'"
      and eq: "the_task r = t'\<lparr>task_status := COMPLETED, task_completed_at := Some finished\<rparr>"
      by auto
    have "step_status s = COMPLETED \<or> step_status s = SKIPPED" if "s \<in> set (task_steps t')" for s
    proof -
      from that obtain j where "j < length (task_steps t')" "s = task_steps t' ! j"
        by (auto simp: in_set_conv_nth)
      with r t0 show ?thesis
        by (auto simp: ran_to_def)
    qed
    with eq show ?thesis by simp
  qed
  show "task_status (the_task r) = FAILED \<and>
           (\<exists>s\<in>set (task_steps (the_task r)). step_status s = FAILED)"
    if "fl = Return"
  proof -
    from out that obtain k where k: "k < length ws" and f: "failed_at ?t0 k (the_task r)"
      by auto
    from f t0 k have "step_status (task_steps (the_task r) ! k) = FAILED"
      and "k < length (task_steps (the_task r))" and "task_status (the_task r) = FAILED"
      by (auto simp: failed_at_def)
    then show ?thesis
      using nth_mem by blast
  qed
  show "\<exists>s\<in>set (task_steps (the_task r)). step_status s = PENDING \<or> step_status s = FAILED"
    if "fl = Throw e"
  proof -
    from out that obtain k where k: "k < length ws"
      and f: "ran_to ?t0 k (the_task r) \<or> broke_at ?t0 k (the_task r)"
      by auto
    from f t0 k have "step_status (task_steps (the_task r) ! k) = PENDING \<or>
        step_status (task_steps (the_task r) ! k) = FAILED"
      and len: "length (task_steps (the_task r)) = length ws"
      by (auto simp: ran_to_def broke_at_def)
    with k show ?thesis
      using nth_mem [of k "task_steps (the_task r)"] by auto
  qed
qed

text \<open>
  C2, as amended. For the run that \<open>startWorkflow\<close> launches on the task it has created:
  every recorded state of the task, and the task the registry holds at the end, has as
  many step records as the workflow has steps. From each recorded state to the next,
  each step record keeps its status or makes one move, from \<open>PENDING\<close> to \<open>RUNNING\<close>, from
  \<open>RUNNING\<close> to \<open>COMPLETED\<close> or to \<open>FAILED\<close>, or from \<open>PENDING\<close> directly to \<open>SKIPPED\<close>; so
  from each recorded state to every later one no step record has moved backward. At the
  end the task is \<open>COMPLETED\<close> or \<open>FAILED\<close>: \<open>COMPLETED\<close> exactly when every step record is
  \<open>COMPLETED\<close> or \<open>SKIPPED\<close>, and \<open>FAILED\<close> exactly when some step record is \<open>FAILED\<close> or an
  exception left \<open>executeWorkflow\<close>.
\<close>

theorem started_run_invariants:
  assumes w: "getProperty workflows workflowName = Own workflow"
    and run: "executeWorkflow_run ex finished workflow params
                (newTask taskId workflowName params workflow started) = (fl, r)"
    and fin: "map_of (tasks (snd (startWorkflow ex workflows taskId started finished
                workflowName params reg))) taskId = Some t"
  shows "hd (history r) = newTask taskId workflowName params workflow started \<and>
    (\<forall>h\<in>set (history r). length (task_steps h) = length workflow) \<and>
    length (task_steps t) = length workflow \<and>
    (\<forall>a. Suc a < length (history r) \<longrightarrow> steps_move (history r ! a) (history r ! Suc a)) \<and>
    (\<forall>a b. a \<le> b \<and> b < length (history r) \<longrightarrow>
       steps_forward (history r ! a) (history r ! b)) \<and>
    task_steps t = task_steps (last (history r)) \<and>
    (task_status t = COMPLETED \<or> task_status t = FAILED) \<and>
    (task_status t = COMPLETED \<longleftrightarrow>
       (\<forall>s\<in>set (task_steps t). step_status s = COMPLETED \<or> step_status s = SKIPPED)) \<and>
    (task_status t = FAILED \<longleftrightarrow>
       (\<exists>s\<in>set (task_steps t). step_status s = FAILED) \<or> (\<exists>e. fl = Throw e))"
proof -
  let ?t0 = "newTask taskId workflowName params workflow started"
  have t: "t = (case fl of Throw e \<Rightarrow> snd (markRejected e (the_task r)) | _ \<Rightarrow> the_task r)"
    by (rule started_task(1) [OF w run fin])
  then have steps: "task_steps t = task_steps (the_task r)"
    by (simp split: flow.splits)
  have m: "monotone_history r"
    using run_monotone [of workflow ?t0 ex finished params] run
    by (simp add: newTask_steps pendingStep_def)
  then have last: "last (history r) = the_task r"
    and sorted: "sorted_wrt steps_forward (history r)"
    and succ: "successively steps_move (history r)"
    by (simp_all add: monotone_history_def)
  note fs = run_final_statuses [OF run]
  have c0: "hd (history r) = ?t0"
    using run_history_hd [of ex finished workflow params ?t0] run by simp
  have len: "\<forall>h\<in>set (history r). length (task_steps h) = length workflow"
    using monotone_history_all [OF m] steps_forward_length fs(1) by fastforce
  have fwd: "steps_forward (history r ! a) (history r ! b)"
    if "a \<le> b" "b < length (history r)" for a b
  proof (cases "a = b")
    case True
    then show ?thesis by simp
  next
    case False
    with that sorted show ?thesis
      by (simp add: sorted_wrt_iff_nth_less)
  qed
  have status: "(task_status t = COMPLETED \<or> task_status t = FAILED) \<and>
    (task_status t = COMPLETED \<longleftrightarrow>
       (\<forall>s\<in>set (task_steps t). step_status s = COMPLETED \<or> step_status s = SKIPPED)) \<and>
    (task_status t = FAILED \<longleftrightarrow>
       (\<exists>s\<in>set (task_steps t). step_status s = FAILED) \<or> (\<exists>e. fl = Throw e))"
  proof (cases fl)
    case Continue
    with fs(2) t show ?thesis by auto
  next
    case Return
    with fs(3) t show ?thesis by force
  next
    case (Throw e)
    with fs(4) [of e] t show ?thesis by force
  qed
  have c2: "length (task_steps t) = length workflow"
    using steps fs(1) by simp
  have c3: "\<forall>a. Suc a < length (history r) \<longrightarrow> steps_move (history r ! a) (history r ! Suc a)"
    using succ by (simp add: successively_conv_nth)
  have c4: "\<forall>a b. a \<le> b \<and> b < length (history r) \<longrightarrow>
       steps_forward (history r ! a) (history r ! b)"
    using fwd by blast
  have c5: "task_steps t = task_steps (last (history r))"
    using steps last by simp
  from c0 len c2 c3 c4 c5 status show ?thesis
    by blast
qed

theorem started_run_invariants_witness:
  "getProperty sampleWorkflows ''four'' = Own fourSteps \<and>
   length (history (snd (executeWorkflow_run executeStep ''T1'' fourSteps (Obj [])
      (newTask ''t1'' ''four'' (Obj []) fourSteps ''T0'')))) = 11 \<and>
   steps_move
     (history (snd (executeWorkflow_run executeStep ''T1'' fourSteps (Obj [])
        (newTask ''t1'' ''four'' (Obj []) fourSteps ''T0''))) ! 6)
     (history (snd (executeWorkflow_run executeStep ''T1'' fourSteps (Obj [])
        (newTask ''t1'' ''four'' (Obj []) fourSteps ''T0''))) ! 7) \<and>
   steps_forward
     (history (snd (executeWorkflow_run executeStep ''T1'' fourSteps (Obj [])
        (newTask ''t1'' ''four'' (Obj []) fourSteps ''T0''))) ! 2)
     (history (snd (executeWorkflow_run executeStep ''T1'' fourSteps (Obj [])
        (newTask ''t1'' ''four'' (Obj []) fourSteps ''T0''))) ! 8) \<and>
   (\<exists>t. map_of (tasks (snd (startWorkflow executeStep sampleWorkflows ''t1'' ''T0'' ''T1'' ''four''
             (Obj []) emptyRegistry))) ''t1'' = Some t \<and>
        length (task_steps t) = length fourSteps \<and>
        map step_status (task_steps t) = [COMPLETED, FAILED, PENDING, PENDING] \<and>
        task_status t = FAILED \<and>
        (task_status t = FAILED) =
          ((\<exists>s\<in>set (task_steps t). step_status s = FAILED) \<or>
           (\<exists>e. fst (executeWorkflow_run executeStep ''T1'' fourSteps (Obj [])
                      (newTask ''t1'' ''four'' (Obj []) fourSteps ''T0'')) = Throw e)) \<and>
        (task_status t = COMPLETED) =
          (\<forall>s\<in>set (task_steps t). step_status s = COMPLETED \<or> step_status s = SKIPPED))"
proof -
  let ?run = "executeWorkflow_run executeStep ''T1'' fourSteps (Obj [])
      (newTask ''t1'' ''four'' (Obj []) fourSteps ''T0'')"
  let ?after = "startWorkflow executeStep sampleWorkflows ''t1'' ''T0'' ''T1'' ''four''
             (Obj []) emptyRegistry"
  have w: "getProperty sampleWorkflows ''four'' = Own fourSteps"
    by (simp add: sampleWorkflows_def getProperty_def)
  have run: "?run = (fst ?run, snd ?run)"
    by simp
  obtain t where fin: "map_of (tasks (snd ?after)) ''t1'' = Some t"
    using started_task_outcome [OF w, of executeStep "''t1''" "''T0''" "''T1''" "Obj []" emptyRegistry]
    by blast
  note th = started_run_invariants [OF w run fin]
  have len: "length (history (snd ?run)) = 11"
    by (simp add: run_defs)
  from th have mv: "\<And>a. Suc a < length (history (snd ?run)) \<Longrightarrow>
      steps_move (history (snd ?run) ! a) (history (snd ?run) ! Suc a)"
    and fw: "\<And>a b. a \<le> b \<Longrightarrow> b < length (history (snd ?run)) \<Longrightarrow>
      steps_forward (history (snd ?run) ! a) (history (snd ?run) ! b)"
    by blast+
  have move: "steps_move (history (snd ?run) ! 6) (history (snd ?run) ! 7)"
    using mv [of 6] len by (simp add: eval_nat_numeral)
  have fwd: "steps_forward (history (snd ?run) ! 2) (history (snd ?run) ! 8)"
    using fw [of 2 8] len by simp
  have statuses: "map step_status (task_steps (last (history (snd ?run)))) =
      [COMPLETED, FAILED, PENDING, PENDING]"
    by (simp add: run_defs)
  from th have steps: "task_steps t = task_steps (last (history (snd ?run)))"
    and l: "length (task_steps t) = length fourSteps"
    and iff1: "(task_status t = FAILED) =
          ((\<exists>s\<in>set (task_steps t). step_status s = FAILED) \<or> (\<exists>e. fst ?run = Throw e))"
    and iff2: "(task_status t = COMPLETED) =
          (\<forall>s\<in>set (task_steps t). step_status s = COMPLETED \<or> step_status s = SKIPPED)"
    by blast+
  have "FAILED \<in> set (map step_status (task_steps t))"
    using steps statuses by simp
  then have "\<exists>s\<in>set (task_steps t). step_status s = FAILED"
    by force
  with iff1 have failed: "task_status t = FAILED"
    by simp
  from w len move fwd fin l statuses steps failed iff1 iff2 show ?thesis
    by (intro conjI exI [of _ t]) simp_all
qed

text \<open>
  The claim as it was stated fails twice. A task is \<open>FAILED\<close> with no step record
  \<open>FAILED\<close> after the run of the workflow \<open>fixOnly\<close>: the condition of its step throws, the
  handler of \<open>startWorkflow\<close> marks the task \<open>FAILED\<close>, and the step record stays \<open>PENDING\<close>.
  And a step record reaches \<open>SKIPPED\<close> without passing through \<open>RUNNING\<close> in the run of
  the workflow \<open>conditional\<close>: the record of its third step is \<open>PENDING\<close> in the first ten
  recorded states of the task and \<open>SKIPPED\<close> from the next on.
\<close>

theorem failed_task_without_failed_step:
  "tasks (snd (startWorkflow executeStep sampleWorkflows ''t2'' ''T0'' ''T1'' ''fix_only'' (Obj [])
                 emptyRegistry)) =
     [(''t2'',
       \<lparr>task_id = ''t2'', task_type = ''fix_only'', task_status = FAILED, task_params = Obj [],
        task_steps = [\<lparr>step_name = ''fix'', step_status = PENDING, step_result = Null,
                       step_error = None\<rparr>],
        task_results = [], task_started_at = ''T0'', task_completed_at = None,
        task_error = Some (Str (''Cannot read properties of undefined (reading ''
                                 @ quoted ''lint_issues'' @ '')''))\<rparr>)] \<and>
   map (\<lambda>h. step_status (task_steps h ! 2))
     (history (snd (executeWorkflow_run executeStep ''T1'' conditional (Obj [])
        (newTask ''t1'' ''conditional'' (Obj []) conditional ''T0'')))) =
     [PENDING, PENDING, PENDING, PENDING, PENDING, PENDING, PENDING, PENDING, PENDING, PENDING,
      SKIPPED, SKIPPED, SKIPPED]"
  by (simp add: run_defs)

subsection \<open>A failing step\<close>



lemma loop_split:
  assumes "k \<le> length ws"
  shows "loop ex params ws 0 r =
     (case loop ex params (take k ws) 0 r of
        (Continue, rk) \<Rightarrow> loop ex params (drop k ws) k rk
      | (Return, r') \<Rightarrow> (Return, r')
      | (Throw e, r') \<Rightarrow> (Throw e, r'))"
  using loop_append [of ex params "take k ws" "drop k ws" 0 r] assms
  by (simp add: min_def split: prod.splits flow.splits)

lemma prefix_ran_to:
  assumes "loop ex params (take k ws) 0 (startRun t0) = (Continue, rk)" and "k \<le> length ws"
  shows "ran_to t0 k (the_task rk)"
  using loop_ran_to [OF ran_to_start, of "take k ws" t0 ex params] assms
  by simp

lemma assign_invocations_same: "(assign f r)\<lparr>invocations := invocations r\<rparr> = assign f r"
  by (simp add: assign_def)

lemma loop_body_failed:
  assumes "shouldSkip step (stepResults r) = Inr False"
    and "i < length (task_steps (the_task r))"
    and "tryBlock ex params step (stepResults r) = Inl e"
  shows "\<exists>c. loop_body ex params step i r =
           stepFailed step i e ((markRunning i r)\<lparr>invocations := c\<rparr>)"
proof (cases "prepareInputs step params (stepResults r)")
  case (Inl e')
  with assms have "loop_body ex params step i r =
      stepFailed step i e ((markRunning i r)\<lparr>invocations := invocations (markRunning i r)\<rparr>)"
    by (simp add: loop_body_def tryBlock_def markRunning_def assign_invocations_same)
  then show ?thesis ..
next
  case (Inr inp)
  with assms have "loop_body ex params step i r =
      stepFailed step i e
         ((markRunning i r)\<lparr>invocations := invocations r @ [(i, agent step, action step, inp)]\<rparr>)"
    by (auto simp: loop_body_def tryBlock_def markRunning_def Let_def split: sum.splits)
  then show ?thesis ..
qed

text \<open>
  Let the first \<open>k\<close> steps of the workflow run without a failure (the loop over them runs
  to its end, leaving the run \<open>rk\<close>), and let step \<open>k\<close> be executed and its \<open>try\<close> block
  throw \<open>e\<close> (from the \<open>inputs\<close> function, the agent invoker or the output mapping). Then
  the task the registry holds after the run is \<open>FAILED\<close> with no completion time, step
  record \<open>k\<close> is \<open>FAILED\<close>, every later step record is as it was created, \<open>PENDING\<close>, and
  the earlier records, each \<open>COMPLETED\<close> or \<open>SKIPPED\<close>, and the results map are those the
  first \<open>k\<close> steps left. When the message of \<open>e\<close> can be read and converted to a string,
  as that of every \<open>Error\<close> object can, the message is the error of step record \<open>k\<close> and
  the error of the task is the text that names step \<open>k\<close>. Otherwise the \<open>catch\<close> block
  throws \<open>e'\<close>, of which the error of the task is the message, if that can be read.
\<close>

lemma step_failure_stops_run:
  assumes w: "getProperty workflows workflowName = Own workflow"
    and k: "k < length workflow"
    and before: "loop ex params (take k workflow) 0
                   (startRun (newTask taskId workflowName params workflow started)) = (Continue, rk)"
    and executed: "shouldSkip (workflow ! k) (stepResults rk) = Inr False"
    and fails: "tryBlock ex params (workflow ! k) (stepResults rk) = Inl e"
    and fin: "map_of (tasks (snd (startWorkflow ex workflows taskId started finished
                workflowName params reg))) taskId = Some t"
  shows "task_status t = FAILED \<and>
     task_completed_at t = None \<and>
     length (task_steps t) = length workflow \<and>
     step_name (task_steps t ! k) = name (workflow ! k) \<and>
     step_status (task_steps t ! k) = FAILED \<and>
     step_result (task_steps t ! k) = Null \<and>
     (\<forall>j. k < j \<and> j < length workflow \<longrightarrow>
        task_steps t ! j =
          \<lparr>step_name = name (workflow ! j), step_status = PENDING, step_result = Null,
           step_error = None\<rparr>) \<and>
     (\<forall>j<k. task_steps t ! j = task_steps (the_task rk) ! j \<and>
        (step_status (task_steps t ! j) = COMPLETED \<or> step_status (task_steps t ! j) = SKIPPED)) \<and>
     task_results t = task_results (the_task rk) \<and>
     (case error_message e of
        Inr m \<Rightarrow>
          step_error (task_steps t ! k) = Some m \<and>
          (case to_string m of
             Inr msg \<Rightarrow>
               task_error t =
                 Some (Str (''Failed to execute step '' @ name (workflow ! k) @ '': '' @ msg))
           | Inl e' \<Rightarrow>
               task_error t = (case error_message e' of Inr m' \<Rightarrow> Some m' | Inl x \<Rightarrow> None))
      | Inl e' \<Rightarrow>
          step_error (task_steps t ! k) = None \<and>
          task_error t = (case error_message e' of Inr m' \<Rightarrow> Some m' | Inl x \<Rightarrow> None))"
proof -
  let ?t0 = "newTask taskId workflowName params workflow started"
  have t0: "task_steps ?t0 = map pendingStep workflow" "task_completed_at ?t0 = None"
    "task_error ?t0 = None"
    by (simp_all add: newTask_def pendingStep_def)
  have inv: "ran_to ?t0 k (the_task rk)"
    using prefix_ran_to [OF before] k by simp
  then have len: "length (task_steps (the_task rk)) = length workflow"
    by (simp add: ran_to_def t0)
  with k have k': "k < length (task_steps (the_task rk))"
    by simp
  from loop_body_failed [OF executed k' fails] obtain c
    where body: "loop_body ex params (workflow ! k) k rk =
        stepFailed (workflow ! k) k e ((markRunning k rk)\<lparr>invocations := c\<rparr>)" ..
  let ?r0 = "(markRunning k rk)\<lparr>invocations := c\<rparr>"
  obtain fl r where sf: "stepFailed (workflow ! k) k e ?r0 = (fl, r)"
    by (cases "stepFailed (workflow ! k) k e ?r0")
  note fr = stepFailed_frame [OF sf]
  have "drop k workflow = workflow ! k # drop (Suc k) workflow"
    using k by (simp add: Cons_nth_drop_Suc)
  then have "loop ex params workflow 0 (startRun ?t0) = (fl, r)"
    using loop_split [of k workflow ex params "startRun ?t0"] k before body sf fr(7)
    by (cases fl) simp_all
  then have run: "executeWorkflow_run ex finished workflow params ?t0 = (fl, r)"
    using fr(7) by (cases fl) (simp_all add: executeWorkflow_run_def)
  have t: "t = (case fl of Throw e \<Rightarrow> snd (markRejected e (the_task r)) | _ \<Rightarrow> the_task r)"
    by (rule started_task(1) [OF w run fin])
  from inv k have at_k: "task_steps (the_task rk) ! k = pendingStep (workflow ! k)"
    and after: "\<And>j. k < j \<Longrightarrow> j < length workflow \<Longrightarrow>
        task_steps (the_task rk) ! j = pendingStep (workflow ! j)"
    and below: "\<And>j. j < k \<Longrightarrow>
        step_status (task_steps (the_task rk) ! j) = COMPLETED \<or>
        step_status (task_steps (the_task rk) ! j) = SKIPPED"
    and open_end: "task_completed_at (the_task rk) = None"
    and no_error: "task_error (the_task rk) = None"
    by (auto simp: ran_to_def t0)
  have steps: "task_steps t = task_steps (the_task r)"
    and results: "task_results t = task_results (the_task r)"
    and completed_at: "task_completed_at t = task_completed_at (the_task r)"
    by (simp_all add: t markRejected_def split: flow.splits sum.splits)
  have other: "task_steps t ! j = task_steps (the_task rk) ! j" if "j \<noteq> k" for j
    using fr(6) [OF that] that by (simp add: steps)
  have 1: "task_completed_at t = None" "task_results t = task_results (the_task rk)"
    "length (task_steps t) = length workflow"
    using fr(3,4,5) open_end len by (simp_all add: steps results completed_at)
  have 2: "task_steps t ! j =
          \<lparr>step_name = name (workflow ! j), step_status = PENDING, step_result = Null,
           step_error = None\<rparr>" if "k < j" "j < length workflow" for j
    using that after [OF that] other [of j] by (simp add: pendingStep_def)
  have 3: "task_steps t ! j = task_steps (the_task rk) ! j \<and>
        (step_status (task_steps t ! j) = COMPLETED \<or> step_status (task_steps t ! j) = SKIPPED)"
    if "j < k" for j
    using that below [OF that] other [of j] by simp
  have 4: "task_status t = FAILED \<and>
     step_name (task_steps t ! k) = name (workflow ! k) \<and>
     step_status (task_steps t ! k) = FAILED \<and>
     step_result (task_steps t ! k) = Null \<and>
     (case error_message e of
        Inr m \<Rightarrow>
          step_error (task_steps t ! k) = Some m \<and>
          (case to_string m of
             Inr msg \<Rightarrow>
               task_error t =
                 Some (Str (''Failed to execute step '' @ name (workflow ! k) @ '': '' @ msg))
           | Inl e' \<Rightarrow>
               task_error t = (case error_message e' of Inr m' \<Rightarrow> Some m' | Inl x \<Rightarrow> None))
      | Inl e' \<Rightarrow>
          step_error (task_steps t ! k) = None \<and>
          task_error t = (case error_message e' of Inr m' \<Rightarrow> Some m' | Inl x \<Rightarrow> None))"
    using sf
  proof (cases rule: stepFailed_cases)
    case (recorded m msg)
    with k' at_k show ?thesis
      by (simp add: t pendingStep_def)
  next
    case (no_message e')
    with k' at_k no_error show ?thesis
      by (simp add: t pendingStep_def markRejected_def split: sum.splits)
  next
    case (no_text m e')
    with k' at_k no_error show ?thesis
      by (simp add: t pendingStep_def markRejected_def split: sum.splits)
  qed
  from 1 2 3 4 show ?thesis
    by blast
qed

lemma step_failure_stops_run_example:
  "getProperty sampleWorkflows ''four'' = Own fourSteps \<and> Suc 0 < length fourSteps \<and>
   fst (loop executeStep (Obj []) (take (Suc 0) fourSteps) 0
          (startRun (newTask ''t1'' ''four'' (Obj []) fourSteps ''T0''))) = Continue \<and>
   shouldSkip (fourSteps ! Suc 0)
     (stepResults (snd (loop executeStep (Obj []) (take (Suc 0) fourSteps) 0
          (startRun (newTask ''t1'' ''four'' (Obj []) fourSteps ''T0''))))) = Inr False \<and>
   tryBlock executeStep (Obj []) (fourSteps ! Suc 0)
     (stepResults (snd (loop executeStep (Obj []) (take (Suc 0) fourSteps) 0
          (startRun (newTask ''t1'' ''four'' (Obj []) fourSteps ''T0''))))) =
     Inl (Error ''Unknown agent action: pm:no_such_action'') \<and>
   (\<exists>t. map_of (tasks (snd (startWorkflow executeStep sampleWorkflows ''t1'' ''T0'' ''T1'' ''four''
             (Obj []) emptyRegistry))) ''t1'' = Some t \<and>
        task_steps t ! Suc 0 =
          \<lparr>step_name = ''plan'', step_status = FAILED, step_result = Null,
           step_error = Some (Str ''Unknown agent action: pm:no_such_action'')\<rparr> \<and>
        task_status t = FAILED \<and>
        task_error t =
          Some (Str ''Failed to execute step plan: Unknown agent action: pm:no_such_action'') \<and>
        task_steps t ! 2 =
          \<lparr>step_name = ''generate'', step_status = PENDING, step_result = Null,
           step_error = None\<rparr> \<and>
        task_steps t ! 3 =
          \<lparr>step_name = ''lint'', step_status = PENDING, step_result = Null,
           step_error = None\<rparr> \<and>
        step_status (task_steps t ! 0) = COMPLETED \<and>
        map fst (task_results t) = [''scope_definition''])"
proof -
  let ?t0 = "newTask ''t1'' ''four'' (Obj []) fourSteps ''T0''"
  let ?before = "loop executeStep (Obj []) (take (Suc 0) fourSteps) 0 (startRun ?t0)"
  let ?after = "startWorkflow executeStep sampleWorkflows ''t1'' ''T0'' ''T1'' ''four''
             (Obj []) emptyRegistry"
  have w: "getProperty sampleWorkflows ''four'' = Own fourSteps"
    by (simp add: sampleWorkflows_def getProperty_def)
  have k: "Suc 0 < length fourSteps"
    by (simp add: fourSteps_def)
  have c: "fst ?before = Continue"
    by (simp add: run_defs)
  then have before: "?before = (Continue, snd ?before)"
    by (metis prod.collapse)
  have executed: "shouldSkip (fourSteps ! Suc 0) (stepResults (snd ?before)) = Inr False"
    by (simp add: run_defs)
  have fails: "tryBlock executeStep (Obj []) (fourSteps ! Suc 0) (stepResults (snd ?before)) =
      Inl (Error ''Unknown agent action: pm:no_such_action'')"
    by (simp add: run_defs tryBlock_def)
  have results: "map fst (task_results (the_task (snd ?before))) = [''scope_definition'']"
    by (simp add: run_defs)
  have names: "name (fourSteps ! Suc 0) = ''plan''" "name (fourSteps ! 2) = ''generate''"
    "name (fourSteps ! 3) = ''lint''" "length fourSteps = 4"
    by (simp_all add: fourSteps_def plainStep_def)
  obtain t where fin: "map_of (tasks (snd ?after)) ''t1'' = Some t"
    using started_task_outcome [OF w, of executeStep "''t1''" "''T0''" "''T1''" "Obj []" emptyRegistry]
    by blast
  note th = step_failure_stops_run [OF w k before executed fails fin]
  have later: "task_steps t ! j =
          \<lparr>step_name = name (fourSteps ! j), step_status = PENDING, step_result = Null,
           step_error = None\<rparr>" if "Suc 0 < j" "j < length fourSteps" for j
    using th that by blast
  have earlier: "task_steps t ! j = task_steps (the_task (snd ?before)) ! j" if "j < Suc 0" for j
    using th that by blast
  have "task_steps t ! 2 =
          \<lparr>step_name = ''generate'', step_status = PENDING, step_result = Null,
           step_error = None\<rparr>"
    and "task_steps t ! 3 =
          \<lparr>step_name = ''lint'', step_status = PENDING, step_result = Null,
           step_error = None\<rparr>"
    and "task_steps t ! 0 = task_steps (the_task (snd ?before)) ! 0"
    using later [of 2] later [of 3] earlier [of 0] by (simp_all add: names)
  moreover have "step_status (task_steps (the_task (snd ?before)) ! 0) = COMPLETED"
    by (simp add: run_defs)
  ultimately show ?thesis
    using th w k c executed fails fin results
    by (intro conjI exI [of _ t]) (simp_all add: names)
qed

text \<open>
  C3. A step that fails is not always recorded with its error text, nor the task with an
  error that names the step. In the workflow \<open>inputsThrow Null\<close> the first step completes
  and the \<open>inputs\<close> function of the second throws \<open>null\<close>. The \<open>catch\<close> block marks the step
  record \<open>FAILED\<close> and then throws, reading the message of \<open>null\<close>: the step record has no
  error, and the handler of \<open>startWorkflow\<close> stores the message of that \<open>TypeError\<close> as the
  error of the task, which it marks \<open>FAILED\<close>. The third step record is still \<open>PENDING\<close>
  and the result of the first step is still in the results map.
\<close>

theorem failed_step_without_error_text:
  "fst (loop executeStep (Obj []) (take 1 (inputsThrow Null)) 0
          (startRun (newTask ''t1'' ''inputs_throw_null'' (Obj []) (inputsThrow Null) ''T0''))) =
     Continue \<and>
   tryBlock executeStep (Obj []) (inputsThrow Null ! 1)
     (stepResults (snd (loop executeStep (Obj []) (take 1 (inputsThrow Null)) 0
          (startRun (newTask ''t1'' ''inputs_throw_null'' (Obj []) (inputsThrow Null) ''T0''))))) =
     Inl (Thrown Null) \<and>
   fst (startWorkflow executeStep sampleWorkflows ''t1'' ''T0'' ''T1'' ''inputs_throw_null'' (Obj [])
          emptyRegistry) = (Inr ''t1'', None) \<and>
   map (\<lambda>t. (task_id t, task_status t, task_error t,
             map (\<lambda>s. (step_name s, step_status s, step_error s)) (task_steps t),
             map fst (task_results t)))
     (map snd (tasks (snd (startWorkflow executeStep sampleWorkflows ''t1'' ''T0'' ''T1''
        ''inputs_throw_null'' (Obj []) emptyRegistry)))) =
     [(''t1'', FAILED,
       Some (Str (''Cannot read properties of null (reading '' @ quoted ''message'' @ '')'')),
       [(''analyze'', COMPLETED, None), (''plan'', FAILED, None), (''generate'', PENDING, None)],
       [''scope_definition''])]"
  by (simp add: run_defs tryBlock_def)

subsection \<open>The accumulated results\<close>





lemma completedSteps_update_same [simp]:
  "completedSteps k (taskStep_update k f t) = completedSteps k t"
  by (simp add: completedSteps_def)














subsection \<open>Skipped steps and progress\<close>

text \<open>
  A step whose condition is false on the accumulated results is marked \<open>SKIPPED\<close>, and its
  iteration makes no call of the agent invoker.
\<close>

lemma skipped_step:
  assumes "shouldSkip step (stepResults r) = Inr True"
    and "i < length (task_steps (the_task r))"
  shows "loop_body ex params step i r =
           (Continue, assign (taskStep_update i (\<lambda>s. s\<lparr>step_status := SKIPPED\<rparr>)) r)"
    and "invocations (snd (loop_body ex params step i r)) = invocations r"
    and "step_status (task_steps (the_task (snd (loop_body ex params step i r))) ! i) = SKIPPED"
  using assms by (simp_all add: loop_body_def)

text \<open>
  The progress of twenty-nine finished steps out of fifty: the quotient \<open>29 / 50\<close> rounds
  to the double \<open>5224175567749775 / 2^53\<close>, just below \<open>0.58\<close>, and its product with \<open>100\<close>
  to \<open>8162774324609023 / 2^47\<close>, just below \<open>58\<close>.
\<close>

lemma scale53_29_50: "scale53 29 50 = 53"
  by (simp add: scale53.simps)

lemma round53_29_50: "round53 29 50 = (5224175567749775, 53)"
  by (simp add: round53_def scale53_29_50 Let_def)

lemma scale53_product: "scale53 522417556774977500 9007199254740992 = 47"
  by (simp add: scale53.simps)

lemma round53_product: "round53 522417556774977500 9007199254740992 = (8162774324609023, 47)"
  by (simp add: round53_def scale53_product Let_def)

lemma progress_29_50: "progress 29 50 = Integer 57"
  by (simp add: progress_def round53_29_50 round53_product)

text \<open>
  With seven step records the progress is the floor of the percentage, whatever the
  number of finished steps: each quotient and each product is evaluated as above.
\<close>

lemma scale53_0_7: "scale53 0 7 = 0"
  by (simp add: scale53.simps)

lemma round53_0_7: "round53 0 7 = (0, 0)"
  by (simp add: round53_def scale53_0_7 Let_def)

lemma scale53_0_7_product: "scale53 0 (Suc 0) = 0"
  by (simp add: scale53.simps)

lemma round53_0_7_product: "round53 0 (Suc 0) = (0, 0)"
  by (simp add: round53_def scale53_0_7_product Let_def)

lemma progress_0_7: "progress 0 7 = Integer 0"
  by (simp add: progress_def round53_0_7 round53_0_7_product)

lemma scale53_1_7: "scale53 (Suc 0) 7 = 55"
  by (simp add: scale53.simps)

lemma round53_1_7: "round53 (Suc 0) 7 = (5146971002709138, 55)"
  by (simp add: round53_def scale53_1_7 Let_def)

lemma scale53_1_7_product: "scale53 514697100270913800 36028797018963968 = 49"
  by (simp add: scale53.simps)

lemma round53_1_7_product: "round53 514697100270913800 36028797018963968 = (8042142191733028, 49)"
  by (simp add: round53_def scale53_1_7_product Let_def)

lemma progress_1_7: "progress (Suc 0) 7 = Integer 14"
  by (simp add: progress_def round53_1_7 round53_1_7_product)

lemma scale53_2_7: "scale53 2 7 = 54"
  by (simp add: scale53.simps)

lemma round53_2_7: "round53 2 7 = (5146971002709138, 54)"
  by (simp add: round53_def scale53_2_7 Let_def)

lemma scale53_2_7_product: "scale53 514697100270913800 18014398509481984 = 48"
  by (simp add: scale53.simps)

lemma round53_2_7_product: "round53 514697100270913800 18014398509481984 = (8042142191733028, 48)"
  by (simp add: round53_def scale53_2_7_product Let_def)

lemma progress_2_7: "progress 2 7 = Integer 28"
  by (simp add: progress_def round53_2_7 round53_2_7_product)

lemma scale53_3_7: "scale53 3 7 = 54"
  by (simp add: scale53.simps)

lemma round53_3_7: "round53 3 7 = (7720456504063707, 54)"
  by (simp add: round53_def scale53_3_7 Let_def)

lemma scale53_3_7_product: "scale53 772045650406370700 18014398509481984 = 47"
  by (simp add: scale53.simps)

lemma round53_3_7_product: "round53 772045650406370700 18014398509481984 = (6031606643799771, 47)"
  by (simp add: round53_def scale53_3_7_product Let_def)

lemma progress_3_7: "progress 3 7 = Integer 42"
  by (simp add: progress_def round53_3_7 round53_3_7_product)

lemma scale53_4_7: "scale53 4 7 = 53"
  by (simp add: scale53.simps)

lemma round53_4_7: "round53 4 7 = (5146971002709138, 53)"
  by (simp add: round53_def scale53_4_7 Let_def)

lemma scale53_4_7_product: "scale53 514697100270913800 9007199254740992 = 47"
  by (simp add: scale53.simps)

lemma round53_4_7_product: "round53 514697100270913800 9007199254740992 = (8042142191733028, 47)"
  by (simp add: round53_def scale53_4_7_product Let_def)

lemma progress_4_7: "progress 4 7 = Integer 57"
  by (simp add: progress_def round53_4_7 round53_4_7_product)

lemma scale53_5_7: "scale53 5 7 = 53"
  by (simp add: scale53.simps)

lemma round53_5_7: "round53 5 7 = (6433713753386423, 53)"
  by (simp add: round53_def scale53_5_7 Let_def)

lemma scale53_5_7_product: "scale53 643371375338642300 9007199254740992 = 46"
  by (simp add: scale53.simps)

lemma round53_5_7_product: "round53 643371375338642300 9007199254740992 = (5026338869833143, 46)"
  by (simp add: round53_def scale53_5_7_product Let_def)

lemma progress_5_7: "progress 5 7 = Integer 71"
  by (simp add: progress_def round53_5_7 round53_5_7_product)

lemma scale53_6_7: "scale53 6 7 = 53"
  by (simp add: scale53.simps)

lemma round53_6_7: "round53 6 7 = (7720456504063707, 53)"
  by (simp add: round53_def scale53_6_7 Let_def)

lemma scale53_6_7_product: "scale53 772045650406370700 9007199254740992 = 46"
  by (simp add: scale53.simps)

lemma round53_6_7_product: "round53 772045650406370700 9007199254740992 = (6031606643799771, 46)"
  by (simp add: round53_def scale53_6_7_product Let_def)

lemma progress_6_7: "progress 6 7 = Integer 85"
  by (simp add: progress_def round53_6_7 round53_6_7_product)

lemma scale53_7_7: "scale53 7 7 = 52"
  by (simp add: scale53.simps)

lemma round53_7_7: "round53 7 7 = (4503599627370496, 52)"
  by (simp add: round53_def scale53_7_7 Let_def)

lemma scale53_7_7_product: "scale53 450359962737049600 4503599627370496 = 46"
  by (simp add: scale53.simps)

lemma round53_7_7_product: "round53 450359962737049600 4503599627370496 = (7036874417766400, 46)"
  by (simp add: round53_def scale53_7_7_product Let_def)

lemma progress_7_7: "progress 7 7 = Integer 100"
  by (simp add: progress_def round53_7_7 round53_7_7_product)

lemma progress_seven_steps:
  assumes "c \<le> 7"
  shows "progress c 7 = Integer (int (c * 100 div 7))"
proof -
  from assms consider "c = 0" | "c = Suc 0" | "c = 2" | "c = 3" | "c = 4" | "c = 5" | "c = 6"
    | "c = 7"
    by linarith
  then show ?thesis
    by cases (simp_all add: progress_0_7 progress_1_7 progress_2_7 progress_3_7 progress_4_7 progress_5_7 progress_6_7 progress_7_7)
qed

text \<open>
  C4. The progress \<open>getTaskStatus\<close> reports is not always the floor of the percentage of
  \<open>COMPLETED\<close> or \<open>SKIPPED\<close> step records. For a task with fifty step records of which
  twenty-nine are \<open>COMPLETED\<close> it is \<open>57\<close>, where the floor of the percentage is \<open>58\<close>; for
  the task of a workflow without steps, which is \<open>COMPLETED\<close> as soon as it is started, it
  is \<open>NaN\<close>.
\<close>

theorem progress_below_floor_percentage:
  "length (task_steps fiftySteps) = 50 \<and>
   length (filter (\<lambda>s. step_status s = COMPLETED \<or> step_status s = SKIPPED)
             (task_steps fiftySteps)) = 29 \<and>
   (29 * 100) div 50 = (58 :: nat) \<and>
   map_sum message ts_progress
     (fst (getTaskStatus ''p'' \<lparr>tasks = [(''p'', fiftySteps)], tasks_json = None\<rparr>)) =
     Inr (Integer 57) \<and>
   map_sum message (\<lambda>s. (ts_status s, ts_progress s))
     (fst (getTaskStatus ''t1''
        (snd (startWorkflow executeStep sampleWorkflows ''t1'' ''T0'' ''T1'' ''empty'' (Obj [])
                emptyRegistry)))) =
     Inr (COMPLETED, NaN)"
proof -
  have 1: "length (task_steps fiftySteps) = 50"
    and 2: "length (filter (\<lambda>s. step_status s = COMPLETED \<or> step_status s = SKIPPED)
             (task_steps fiftySteps)) = 29"
    by (simp_all add: fiftySteps_def)
  have 3: "map_sum message ts_progress
     (fst (getTaskStatus ''p'' \<lparr>tasks = [(''p'', fiftySteps)], tasks_json = None\<rparr>)) =
     Inr (Integer 57)"
    by (simp add: getTaskStatus_def 1 2 progress_29_50)
  have 4: "map_sum message (\<lambda>s. (ts_status s, ts_progress s))
     (fst (getTaskStatus ''t1''
        (snd (startWorkflow executeStep sampleWorkflows ''t1'' ''T0'' ''T1'' ''empty'' (Obj [])
                emptyRegistry)))) =
     Inr (COMPLETED, NaN)"
    by (simp add: run_defs getTaskStatus_def progress_def)
  from 1 2 3 4 show ?thesis
    by simp
qed

subsection \<open>Durable storage\<close>

text \<open>
  C5, as amended. Starting a workflow and running it leave the ledger file as it was:
  every assignment of a run is made to the task object that the in-memory map holds
  under the task id, and nothing is serialised. Overwriting the file with the whole array
  of tasks is what \<open>saveTasksToDisk\<close> does, a method of \<open>MinimalOrchestratorClient\<close> that the
  workflow engine never calls.
\<close>

theorem run_writes_memory_only:
  "tasks_json (snd (startWorkflow ex workflows taskId started finished workflowName params reg)) =
     tasks_json reg \<and>
   tasks_json (snd (executeWorkflow ex now taskId workflow params reg)) = tasks_json reg \<and>
   (case map_of (tasks reg) taskId of
      None \<Rightarrow> tasks (snd (executeWorkflow ex now taskId workflow params reg)) = tasks reg
    | Some t \<Rightarrow>
        tasks (snd (executeWorkflow ex now taskId workflow params reg)) =
          AList.update taskId (the_task (snd (executeWorkflow_run ex now workflow params t)))
            (tasks reg)) \<and>
   saveTasksToDisk True reg = reg\<lparr>tasks_json := Some (map snd (tasks reg))\<rparr> \<and>
   saveTasksToDisk False reg = reg"
  by (auto simp: startWorkflow_def createTask_def executeWorkflow_def onRejected_def
      saveTasksToDisk_def Let_def
      split: option.splits prod.splits flow.splits sum.splits property.splits)

text \<open>
  The claim as it was stated, that every mutation of a run is followed by a write of the
  task collection to durable storage, fails on the run of the workflow \<open>conditional\<close> from
  the empty registry: the task ends \<open>COMPLETED\<close> after two steps completed and one was
  skipped, and there is still no ledger file.
\<close>

theorem run_leaves_no_file:
  "map (\<lambda>t. (task_status t, map step_status (task_steps t)))
     (map snd (tasks (snd (startWorkflow executeStep sampleWorkflows ''t1'' ''T0'' ''T1''
        ''conditional'' (Obj []) emptyRegistry)))) =
     [(COMPLETED, [COMPLETED, COMPLETED, SKIPPED])] \<and>
   tasks_json emptyRegistry = None \<and>
   tasks_json (snd (startWorkflow executeStep sampleWorkflows ''t1'' ''T0'' ''T1''
        ''conditional'' (Obj []) emptyRegistry)) = None \<and>
   tasks_json (snd (startWorkflow executeStep sampleWorkflows ''t1'' ''T0'' ''T1''
        ''conditional'' (Obj []) emptyRegistry)) \<noteq>
     Some (map snd (tasks (snd (startWorkflow executeStep sampleWorkflows ''t1'' ''T0'' ''T1''
        ''conditional'' (Obj []) emptyRegistry))))"
  by (simp add: run_defs)

end
